theory Spec2Isabelle
  imports Main
begin

section \<open>Grid constants\<close>

text \<open>
  The spreadsheet component of the repository (a React function component) keeps its whole
  state in \<open>useState\<close> cells and changes it only from event handlers.  The embedding below
  turns every handler into a function from the state of the render in which the handler was
  created to the state after the handler's updates have been applied.
\<close>

definition COLUMNS :: "string list" where
  \<comment> \<open>\<open>Array.from({ length: 26 }, (_, i) => String.fromCharCode(65 + i))\<close>\<close>
  "COLUMNS = map (\<lambda>i. [char_of (65 + i)]) [0..<26]"

definition ROWS :: int where
  "ROWS = 50"

definition DEFAULT_COLUMN_WIDTH :: int where
  "DEFAULT_COLUMN_WIDTH = 96"

definition DEFAULT_ROW_HEIGHT :: int where
  "DEFAULT_ROW_HEIGHT = 24"

definition MIN_COLUMN_WIDTH :: int where
  "MIN_COLUMN_WIDTH = 20"

definition MIN_ROW_HEIGHT :: int where
  "MIN_ROW_HEIGHT = 15"

section \<open>The JavaScript primitives the component uses\<close>

text \<open>
  Numbers of the component are row and column indices, pixel sizes, pointer coordinates and
  millisecond clock readings: all integers far below \<open>2^53\<close>, so they are modelled as \<open>int\<close>.
\<close>

definition digit_char :: "nat \<Rightarrow> char" where
  "digit_char d = char_of (48 + d)"

fun digits :: "nat \<Rightarrow> string" where
  "digits n = (if n < 10 then [digit_char n] else digits (n div 10) @ [digit_char (n mod 10)])"

declare digits.simps [simp del]

definition toString :: "int \<Rightarrow> string" where
  \<comment> \<open>\<open>Number.prototype.toString\<close> (and template-literal conversion) of an integer\<close>
  "toString i = (if i < 0 then CHR ''-'' # digits (nat (- i)) else digits (nat i))"

definition isWhiteSpace :: "char \<Rightarrow> bool" where
  \<comment> \<open>the white space \<open>parseInt\<close> skips, as far as it is ASCII: tab, line feed, vertical
      tab, form feed, carriage return and space\<close>
  "isWhiteSpace c \<longleftrightarrow> (of_char c :: nat) \<in> {9, 10, 11, 12, 13, 32}"

definition digitValue :: "char \<Rightarrow> nat option" where
  "digitValue c =
     (let n = (of_char c :: nat) in
      if 48 \<le> n \<and> n \<le> 57 then Some (n - 48)
      else if 97 \<le> n \<and> n \<le> 122 then Some (n - 87)
      else if 65 \<le> n \<and> n \<le> 90 then Some (n - 55)
      else None)"

definition isRadixDigit :: "nat \<Rightarrow> char \<Rightarrow> bool" where
  "isRadixDigit R c = (case digitValue c of None \<Rightarrow> False | Some d \<Rightarrow> d < R)"

definition radixValue :: "nat \<Rightarrow> string \<Rightarrow> nat" where
  "radixValue R Z = foldl (\<lambda>a c. a * R + (case digitValue c of None \<Rightarrow> 0 | Some d \<Rightarrow> d)) 0 Z"

definition parseInt :: "string \<Rightarrow> int option" where
  \<comment> \<open>\<open>parseInt(string)\<close> with no radix argument; \<open>None\<close> is \<open>NaN\<close>\<close>
  "parseInt inputString =
     (let S = dropWhile isWhiteSpace inputString;
          sign = (case S of [] \<Rightarrow> 1 | c # _ \<Rightarrow> if c = CHR ''-'' then - 1 else (1::int));
          S1 = (case S of [] \<Rightarrow> S | c # r \<Rightarrow> if c = CHR ''+'' \<or> c = CHR ''-'' then r else S);
          hex = (case S1 of a # b # _ \<Rightarrow> a = CHR ''0'' \<and> (b = CHR ''x'' \<or> b = CHR ''X'') | _ \<Rightarrow> False);
          R = (if hex then 16 else 10);
          S2 = (if hex then drop 2 S1 else S1);
          Z = takeWhile (isRadixDigit R) S2
      in if Z = [] then None else Some (sign * int (radixValue R Z)))"

fun indexOf_from :: "'a list \<Rightarrow> 'a \<Rightarrow> int \<Rightarrow> int" where
  "indexOf_from [] x i = - 1"
| "indexOf_from (y # ys) x i = (if y = x then i else indexOf_from ys x (i + 1))"

definition indexOf :: "'a list \<Rightarrow> 'a \<Rightarrow> int" where
  \<comment> \<open>\<open>Array.prototype.indexOf\<close>: the first index holding the element, or \<open>-1\<close>\<close>
  "indexOf xs x = indexOf_from xs x 0"

section \<open>Cell addresses\<close>

definition getCellId :: "int \<Rightarrow> int \<Rightarrow> string" where
  \<comment> \<open>the template \<open>`${COLUMNS[col]}${row + 1}`\<close>; an index outside the array reads \<open>undefined\<close>\<close>
  "getCellId row col =
     (if 0 \<le> col \<and> col < int (length COLUMNS) then COLUMNS ! nat col else ''undefined'')
       @ toString (row + 1)"

definition rowOf :: "string \<Rightarrow> int option" where
  \<comment> \<open>\<open>parseInt(selectedCell.slice(1)) - 1\<close> of the formula bar; \<open>None\<close> is \<open>NaN\<close>\<close>
  "rowOf cellId = map_option (\<lambda>n. n - 1) (parseInt (drop 1 cellId))"

definition colOf :: "string \<Rightarrow> int" where
  \<comment> \<open>\<open>COLUMNS.indexOf(selectedCell[0])\<close> of the formula bar; \<open>selectedCell[0]\<close> of the empty
      string is \<open>undefined\<close>, which no column equals\<close>
  "colOf cellId = (case cellId of [] \<Rightarrow> - 1 | c # _ \<Rightarrow> indexOf COLUMNS [c])"

section \<open>Sheets and component state\<close>

record Sheet =
  sheet_id :: string
  name :: string
  data :: "string \<rightharpoonup> string"
  columnWidths :: "(string \<rightharpoonup> int) option"
  rowHeights :: "(string \<rightharpoonup> int) option"

text \<open>
  The two geometry fields are optional in the interface (\<open>None\<close> is \<open>undefined\<close>).  Their
  keys are property names, hence strings, at run time: a numeric row index is converted by
  \<open>toString\<close> when it is used as a key.
\<close>

datatype ResizeType = Column | Row

datatype PropertyIndex = Num int | Str string

definition propertyKey :: "PropertyIndex \<Rightarrow> string" where
  "propertyKey index = (case index of Num n \<Rightarrow> toString n | Str k \<Rightarrow> k)"

record State =
  sheets :: "Sheet list"
  activeSheetId :: string
  selectedCell :: "string option"
  editingCell :: "string option"
  cellValue :: string
  isResizing :: bool
  resizingType :: "ResizeType option"
  resizingIndex :: "PropertyIndex option"
  resizeStartPos :: int
  resizeStartSize :: int

definition initialState :: State where
  "initialState =
     \<lparr>sheets = [\<lparr>sheet_id = ''1'', name = ''Sheet1'', data = Map.empty,
                  columnWidths = None, rowHeights = None\<rparr>],
      activeSheetId = ''1'', selectedCell = None, editingCell = None, cellValue = [],
      isResizing = False, resizingType = None, resizingIndex = None,
      resizeStartPos = 0, resizeStartSize = 0\<rparr>"

definition activeSheet :: "State \<Rightarrow> Sheet option" where
  \<comment> \<open>\<open>sheets.find(s => s.id === activeSheetId) || sheets[0]\<close>; \<open>None\<close> is \<open>undefined\<close>\<close>
  "activeSheet s =
     (case find (\<lambda>sh. sheet_id sh = activeSheetId s) (sheets s) of
        Some sh \<Rightarrow> Some sh
      | None \<Rightarrow> (case sheets s of [] \<Rightarrow> None | sh # _ \<Rightarrow> Some sh))"

text \<open>
  A handler that reads a property of \<open>activeSheet\<close> when there is no sheet at all throws a
  \<open>TypeError\<close>; such handlers return \<open>None\<close> for the throw.
\<close>

definition orDefault :: "int option \<Rightarrow> int \<Rightarrow> int" where
  \<comment> \<open>\<open>v || d\<close> on a number or \<open>undefined\<close>: zero is falsy too\<close>
  "orDefault v d = (case v of None \<Rightarrow> d | Some w \<Rightarrow> if w = 0 then d else w)"

definition lookupOpt :: "(string \<rightharpoonup> int) option \<Rightarrow> string \<Rightarrow> int option" where
  \<comment> \<open>\<open>m?.[k]\<close>\<close>
  "lookupOpt m k = (case m of None \<Rightarrow> None | Some f \<Rightarrow> f k)"

definition getColumnWidth :: "State \<Rightarrow> PropertyIndex \<Rightarrow> int option" where
  "getColumnWidth s col =
     (case activeSheet s of
        None \<Rightarrow> None
      | Some sh \<Rightarrow> Some (orDefault (lookupOpt (columnWidths sh) (propertyKey col)) DEFAULT_COLUMN_WIDTH))"

definition getRowHeight :: "State \<Rightarrow> PropertyIndex \<Rightarrow> int option" where
  "getRowHeight s row =
     (case activeSheet s of
        None \<Rightarrow> None
      | Some sh \<Rightarrow> Some (orDefault (lookupOpt (rowHeights sh) (propertyKey row)) DEFAULT_ROW_HEIGHT))"

section \<open>Resizing\<close>

definition handleResizeStart :: "State \<Rightarrow> ResizeType \<Rightarrow> PropertyIndex \<Rightarrow> int \<Rightarrow> int \<Rightarrow> State option" where
  "handleResizeStart s type index clientX clientY =
     (case (if type = Column then getColumnWidth s index else getRowHeight s index) of
        None \<Rightarrow> None
      | Some startSize \<Rightarrow>
          Some (s\<lparr>isResizing := True, resizingType := Some type, resizingIndex := Some index,
                  resizeStartPos := (if type = Column then clientX else clientY),
                  resizeStartSize := startSize\<rparr>))"

definition spread :: "(string \<rightharpoonup> int) option \<Rightarrow> (string \<rightharpoonup> int)" where
  \<comment> \<open>\<open>{ ...m }\<close>: spreading \<open>undefined\<close> adds nothing\<close>
  "spread m = (case m of None \<Rightarrow> Map.empty | Some f \<Rightarrow> f)"

definition updateSheetDimensions ::
  "string \<Rightarrow> (string \<rightharpoonup> int) option \<Rightarrow> (string \<rightharpoonup> int) option \<Rightarrow> Sheet list \<Rightarrow> Sheet list" where
  \<comment> \<open>the updater passed to \<open>setSheets\<close>; the first argument is the \<open>activeSheetId\<close> the
      callback closes over\<close>
  "updateSheetDimensions activeId cw rh prevSheets =
     map (\<lambda>sheet.
            if sheet_id sheet = activeId
            then sheet\<lparr>columnWidths :=
                         (case cw of Some c \<Rightarrow> Some (spread (columnWidths sheet) ++ c)
                                   | None \<Rightarrow> columnWidths sheet),
                       rowHeights :=
                         (case rh of Some r \<Rightarrow> Some (spread (rowHeights sheet) ++ r)
                                   | None \<Rightarrow> rowHeights sheet)\<rparr>
            else sheet)
         prevSheets"

definition newSize :: "ResizeType \<Rightarrow> int \<Rightarrow> int \<Rightarrow> int \<Rightarrow> int" where
  \<comment> \<open>\<open>Math.max(type === 'column' ? MIN_COLUMN_WIDTH : MIN_ROW_HEIGHT, resizeStartSize + diff)\<close>
      with \<open>diff = currentPos - resizeStartPos\<close>\<close>
  "newSize type startSize startPos currentPos =
     max (if type = Column then MIN_COLUMN_WIDTH else MIN_ROW_HEIGHT)
         (startSize + (currentPos - startPos))"

definition handleMouseMove :: "State \<Rightarrow> int \<Rightarrow> int \<Rightarrow> State" where
  "handleMouseMove s clientX clientY =
     (case (isResizing s, resizingType s, resizingIndex s) of
        (True, Some type, Some index) \<Rightarrow>
          (let currentPos = (if type = Column then clientX else clientY);
               sz = newSize type (resizeStartSize s) (resizeStartPos s) currentPos
           in if type = Column
              then s\<lparr>sheets := updateSheetDimensions (activeSheetId s)
                                 (Some [propertyKey index \<mapsto> sz]) None (sheets s)\<rparr>
              else s\<lparr>sheets := updateSheetDimensions (activeSheetId s)
                                 None (Some [propertyKey index \<mapsto> sz]) (sheets s)\<rparr>)
      | _ \<Rightarrow> s)"

definition handleMouseUp :: "State \<Rightarrow> State" where
  "handleMouseUp s = s\<lparr>isResizing := False, resizingType := None, resizingIndex := None\<rparr>"

section \<open>Cells, selection and editing\<close>

definition getCell :: "Sheet \<Rightarrow> string \<Rightarrow> string" where
  \<comment> \<open>\<open>sheet.data[cellId] || ''\<close>\<close>
  "getCell sheet cellId = (case data sheet cellId of None \<Rightarrow> [] | Some v \<Rightarrow> v)"

definition getCellValue :: "State \<Rightarrow> int \<Rightarrow> int \<Rightarrow> string option" where
  "getCellValue s row col =
     (case activeSheet s of None \<Rightarrow> None | Some sh \<Rightarrow> Some (getCell sh (getCellId row col)))"

definition setCell :: "Sheet list \<Rightarrow> string \<Rightarrow> string \<Rightarrow> string \<Rightarrow> Sheet list" where
  \<comment> \<open>the cell write, written out three times in the source (commit, formula bar, sheet tab):
      \<open>prevSheets.map(sheet => sheet.id === id ? { ...sheet, data: { ...sheet.data, [cellId]: value } } : sheet)\<close>\<close>
  "setCell prevSheets sheetId cellId v =
     map (\<lambda>sheet. if sheet_id sheet = sheetId then sheet\<lparr>data := (data sheet)(cellId \<mapsto> v)\<rparr> else sheet)
         prevSheets"

text \<open>
  \<open>handleCellBlur\<close> and \<open>handleCellClick\<close> are also called one after the other inside
  \<open>handleKeyDown\<close>.  Both read the variables of the render that created them (first
  argument) and queue their updates behind those already queued in the same event (second
  argument); called on their own, the two arguments are the same state.
\<close>

definition pendingEdit :: "State \<Rightarrow> string option" where
  \<comment> \<open>the guard \<open>selectedCell && editingCell === selectedCell\<close>: the cell to write, if any\<close>
  "pendingEdit s =
     (case selectedCell s of
        None \<Rightarrow> None
      | Some c \<Rightarrow> if c \<noteq> [] \<and> editingCell s = Some c then Some c else None)"

definition handleCellClick :: "State \<Rightarrow> State \<Rightarrow> int \<Rightarrow> int \<Rightarrow> State option" where
  "handleCellClick snap pend row col =
     (case getCellValue snap row col of
        None \<Rightarrow> None
      | Some v \<Rightarrow>
          Some (pend\<lparr>selectedCell := Some (getCellId row col),
                     editingCell := Some (getCellId row col),
                     cellValue := v\<rparr>))"

definition handleCellChange :: "State \<Rightarrow> string \<Rightarrow> State" where
  "handleCellChange s v = s\<lparr>cellValue := v\<rparr>"

definition handleCellBlur :: "State \<Rightarrow> State \<Rightarrow> State" where
  "handleCellBlur snap pend =
     (case pendingEdit snap of
        Some c \<Rightarrow> pend\<lparr>sheets := setCell (sheets pend) (activeSheetId snap) c (cellValue snap)\<rparr>
      | None \<Rightarrow> pend)
     \<lparr>editingCell := None\<rparr>"

definition handleKeyDown :: "State \<Rightarrow> string \<Rightarrow> int \<Rightarrow> int \<Rightarrow> State option" where
  "handleKeyDown s key row col =
     (if key = ''Enter'' then
        (if row < ROWS - 1 then handleCellClick s (handleCellBlur s s) (row + 1) col
         else Some (handleCellBlur s s))
      else if key = ''Tab'' then
        (if col < int (length COLUMNS) - 1 then handleCellClick s (handleCellBlur s s) row (col + 1)
         else Some (handleCellBlur s s))
      else if key = ''ArrowDown'' then
        (if row < ROWS - 1 then handleCellClick s (handleCellBlur s s) (row + 1) col
         else Some (handleCellBlur s s))
      else if key = ''ArrowUp'' then
        (if row > 0 then handleCellClick s (handleCellBlur s s) (row - 1) col
         else Some (handleCellBlur s s))
      else if key = ''ArrowRight'' then
        (if col < int (length COLUMNS) - 1 then handleCellClick s (handleCellBlur s s) row (col + 1)
         else Some (handleCellBlur s s))
      else if key = ''ArrowLeft'' then
        (if col > 0 then handleCellClick s (handleCellBlur s s) row (col - 1)
         else Some (handleCellBlur s s))
      else Some s)"

definition formulaBarChange :: "State \<Rightarrow> string \<Rightarrow> State" where
  \<comment> \<open>\<open>onChange\<close> of the formula bar's input\<close>
  "formulaBarChange s v =
     (case selectedCell s of
        None \<Rightarrow> s\<lparr>cellValue := v\<rparr>
      | Some c \<Rightarrow>
          if c \<noteq> [] then s\<lparr>cellValue := v, sheets := setCell (sheets s) (activeSheetId s) c v\<rparr>
          else s\<lparr>cellValue := v\<rparr>)"

section \<open>The sheet collection\<close>

definition addNewSheet :: "State \<Rightarrow> int \<Rightarrow> State" where
  \<comment> \<open>the second argument is what \<open>Date.now()\<close> returns during the call\<close>
  "addNewSheet s now =
     (let newSheetNumber = int (length (sheets s)) + 1;
          newSheet = \<lparr>sheet_id = toString now, name = ''Sheet'' @ toString newSheetNumber,
                      data = Map.empty, columnWidths = Some Map.empty, rowHeights = Some Map.empty\<rparr>
      in s\<lparr>sheets := sheets s @ [newSheet], activeSheetId := sheet_id newSheet\<rparr>)"

definition deleteSheet :: "State \<Rightarrow> string \<Rightarrow> State option" where
  \<comment> \<open>\<open>newSheets[0].id\<close> throws when nothing is left: \<open>None\<close>\<close>
  "deleteSheet s sheetId =
     (if length (sheets s) = 1 then Some s
      else
        (let newSheets = filter (\<lambda>sh. sheet_id sh \<noteq> sheetId) (sheets s)
         in if activeSheetId s = sheetId
            then (case newSheets of
                    [] \<Rightarrow> None
                  | sh # _ \<Rightarrow> Some (s\<lparr>sheets := newSheets, activeSheetId := sheet_id sh\<rparr>))
            else Some (s\<lparr>sheets := newSheets\<rparr>)))"

definition renameSheet :: "State \<Rightarrow> string \<Rightarrow> string \<Rightarrow> State" where
  "renameSheet s sheetId newName =
     s\<lparr>sheets := map (\<lambda>sheet. if sheet_id sheet = sheetId then sheet\<lparr>name := newName\<rparr> else sheet)
                      (sheets s)\<rparr>"

definition sheetTabClick :: "State \<Rightarrow> string \<Rightarrow> State" where
  \<comment> \<open>\<open>onClick\<close> of a sheet tab; \<open>cellValue !== undefined\<close> holds of every string\<close>
  "sheetTabClick s target =
     (case pendingEdit s of
        Some c \<Rightarrow> s\<lparr>sheets := setCell (sheets s) (activeSheetId s) c (cellValue s)\<rparr>
      | None \<Rightarrow> s)
     \<lparr>activeSheetId := target\<rparr>"

definition clearSelectionEffect :: "State \<Rightarrow> State \<Rightarrow> State" where
  \<comment> \<open>the effect with dependency \<open>[activeSheetId]\<close>: it runs after a render in which
      \<open>activeSheetId\<close> differs from the render before\<close>
  "clearSelectionEffect before after =
     (if activeSheetId after \<noteq> activeSheetId before
      then after\<lparr>selectedCell := None, editingCell := None, cellValue := []\<rparr>
      else after)"

section \<open>Events\<close>

datatype Event =
    CellClick int int
  | CellChange string
  | CellBlur
  | KeyDown string int int
  | FormulaBarChange string
  | AddNewSheet int
  | DeleteSheet string
  | RenameSheet string string
  | SheetTabClick string
  | ResizeStart ResizeType PropertyIndex int int
  | MouseMove int int
  | MouseUp

fun handler :: "State \<Rightarrow> Event \<Rightarrow> State option" where
  "handler s (CellClick row col) = handleCellClick s s row col"
| "handler s (CellChange v) = Some (handleCellChange s v)"
| "handler s CellBlur = Some (handleCellBlur s s)"
| "handler s (KeyDown key row col) = handleKeyDown s key row col"
| "handler s (FormulaBarChange v) = Some (formulaBarChange s v)"
| "handler s (AddNewSheet now) = Some (addNewSheet s now)"
| "handler s (DeleteSheet sheetId) = deleteSheet s sheetId"
| "handler s (RenameSheet sheetId newName) = Some (renameSheet s sheetId newName)"
| "handler s (SheetTabClick target) = Some (sheetTabClick s target)"
| "handler s (ResizeStart type index clientX clientY) = handleResizeStart s type index clientX clientY"
| "handler s (MouseMove clientX clientY) = Some (handleMouseMove s clientX clientY)"
| "handler s MouseUp = Some (handleMouseUp s)"

definition step :: "State \<Rightarrow> Event \<Rightarrow> State option" where
  \<comment> \<open>one event: the handler's updates, then the effects of the render that follows\<close>
  "step s e = map_option (clearSelectionEffect s) (handler s e)"

fun run :: "State \<Rightarrow> Event list \<Rightarrow> State option" where
  "run s [] = Some s"
| "run s (e # es) = (case step s e of None \<Rightarrow> None | Some s' \<Rightarrow> run s' es)"

section \<open>Notions used in the statements\<close>

definition directionKeys :: "string list" where
  \<comment> \<open>the values of \<open>e.key\<close> that \<open>handleKeyDown\<close> has a branch for\<close>
  "directionKeys = [''Enter'', ''Tab'', ''ArrowDown'', ''ArrowUp'', ''ArrowRight'', ''ArrowLeft'']"

definition destination :: "string \<Rightarrow> int \<Rightarrow> int \<Rightarrow> int \<times> int" where
  \<comment> \<open>where a directional key leads from (row, col), stated on its own so that
      \<open>handleKeyDown\<close> can be compared with it: down for Enter and ArrowDown, right for Tab
      and ArrowRight, up for ArrowUp, left for ArrowLeft\<close>
  "destination key row col =
     (if key = ''Enter'' \<or> key = ''ArrowDown'' then (row + 1, col)
      else if key = ''Tab'' \<or> key = ''ArrowRight'' then (row, col + 1)
      else if key = ''ArrowUp'' then (row - 1, col)
      else if key = ''ArrowLeft'' then (row, col - 1)
      else (row, col))"

definition inGrid :: "int \<Rightarrow> int \<Rightarrow> bool" where
  \<comment> \<open>the indices of the rendered cells\<close>
  "inGrid row col \<longleftrightarrow> 0 \<le> row \<and> row < ROWS \<and> 0 \<le> col \<and> col < int (length COLUMNS)"

definition storedSize :: "Sheet \<Rightarrow> ResizeType \<Rightarrow> string \<Rightarrow> int option" where
  \<comment> \<open>the override a sheet stores for a column label or a row key, if any\<close>
  "storedSize sh type k = lookupOpt (if type = Column then columnWidths sh else rowHeights sh) k"

definition minimumSize :: "ResizeType \<Rightarrow> int" where
  "minimumSize type = (if type = Column then MIN_COLUMN_WIDTH else MIN_ROW_HEIGHT)"

definition sizesAbove :: "Sheet list \<Rightarrow> bool" where
  \<comment> \<open>every stored override is at least the minimum of its kind\<close>
  "sizesAbove shs \<longleftrightarrow>
     (\<forall>sh \<in> set shs. \<forall>type k w. storedSize sh type k = Some w \<longrightarrow> minimumSize type \<le> w)"

fun clockReadings :: "Event list \<Rightarrow> int list" where
  \<comment> \<open>the values \<open>Date.now()\<close> returned to the additions of a sequence of events, in order\<close>
  "clockReadings [] = []"
| "clockReadings (AddNewSheet now # es) = now # clockReadings es"
| "clockReadings (e # es) = clockReadings es"

definition cellColumn :: "string \<Rightarrow> Sheet list \<Rightarrow> string list" where
  \<comment> \<open>what \<open>getCell\<close> reads at one cell id in each sheet of the collection, in order\<close>
  "cellColumn c shs = map (\<lambda>sh. getCell sh c) shs"

definition dispatchable :: "State \<Rightarrow> Event \<Rightarrow> bool" where
  \<comment> \<open>a sheet tab exists, and can be clicked, only for a sheet of the collection; the other
      handlers are not restricted here\<close>
  "dispatchable s e =
     (case e of SheetTabClick target \<Rightarrow> target \<in> set (map sheet_id (sheets s)) | _ \<Rightarrow> True)"

fun dispatchableRun :: "State \<Rightarrow> Event list \<Rightarrow> bool" where
  \<comment> \<open>every event of the sequence can be dispatched in the state it arrives in\<close>
  "dispatchableRun s [] = True"
| "dispatchableRun s (e # es) =
     (dispatchable s e \<and> (case step s e of None \<Rightarrow> True | Some s' \<Rightarrow> dispatchableRun s' es))"

section \<open>States used as examples\<close>

definition editingB2 :: State where
  "editingB2 = initialState\<lparr>selectedCell := Some ''B2'', editingCell := Some ''B2'', cellValue := ''42''\<rparr>"

definition editingC3 :: State where
  "editingC3 = initialState\<lparr>selectedCell := Some ''C3'', editingCell := Some ''C3'', cellValue := ''grid''\<rparr>"

definition editingA1 :: State where
  "editingA1 = initialState\<lparr>selectedCell := Some ''A1'', editingCell := Some ''A1'', cellValue := ''x''\<rparr>"

definition editingZ50 :: State where
  "editingZ50 = initialState\<lparr>selectedCell := Some ''Z50'', editingCell := Some ''Z50'', cellValue := ''y''\<rparr>"

definition twoSheets :: "Sheet list" where
  "twoSheets =
     [\<lparr>sheet_id = ''1'', name = ''Sheet1'', data = Map.empty, columnWidths = None, rowHeights = None\<rparr>,
      \<lparr>sheet_id = ''2'', name = ''Sheet2'', data = Map.empty, columnWidths = Some Map.empty,
        rowHeights = Some Map.empty\<rparr>]"

definition twoSheetState :: State where
  "twoSheetState = addNewSheet initialState 5"

definition threeSheetState :: State where
  "threeSheetState = addNewSheet (addNewSheet initialState 5) 7"


definition equalIdsState :: State where
  \<comment> \<open>two additions that read the same clock value\<close>
  "equalIdsState = addNewSheet (addNewSheet initialState 5) 5"

definition draggingColumnA :: State where
  \<comment> \<open>the initial state after a drag of column A has started at pointer position 100\<close>
  "draggingColumnA =
     initialState\<lparr>isResizing := True, resizingType := Some Column, resizingIndex := Some (Str ''A''),
                  resizeStartPos := 100, resizeStartSize := 96\<rparr>"

section \<open>Decimal numerals\<close>

lemma length_COLUMNS: "length COLUMNS = 26"
  by (simp add: COLUMNS_def)

lemma distinct_COLUMNS: "distinct COLUMNS"
proof -
  have "inj_on (\<lambda>i. [char_of (65 + i)]) {0..<26::nat}"
  proof (rule inj_onI)
    fix i j :: nat
    assume i: "i \<in> {0..<26}" and j: "j \<in> {0..<26}"
      and eq: "[char_of (65 + i)] = [char_of (65 + j) :: char]"
    from eq have "(of_char (char_of (65 + i) :: char) :: nat) = of_char (char_of (65 + j) :: char)"
      by simp
    then have "(65 + i) mod 256 = (65 + j) mod 256"
      by simp
    with i j show "i = j" by simp
  qed
  then show ?thesis
    by (simp add: COLUMNS_def distinct_map)
qed

lemma COLUMNS_single: "i < 26 \<Longrightarrow> \<exists>c. COLUMNS ! i = [c]"
  by (simp add: COLUMNS_def)

lemma of_char_digit_char: "d < 10 \<Longrightarrow> (of_char (digit_char d) :: nat) = 48 + d"
  by (simp add: digit_char_def)

lemma digitValue_digit_char: "d < 10 \<Longrightarrow> digitValue (digit_char d) = Some d"
  by (simp add: digitValue_def of_char_digit_char)

lemma isRadixDigit_digit_char: "d < 10 \<Longrightarrow> isRadixDigit 10 (digit_char d)"
  by (simp add: isRadixDigit_def digitValue_digit_char)

lemma digits_chars: "c \<in> set (digits n) \<Longrightarrow> \<exists>d<10. c = digit_char d"
proof (induction n rule: digits.induct)
  case (1 n)
  show ?case
  proof (cases "n < 10")
    case True
    with "1.prems" show ?thesis
      by (auto simp: digits.simps [of n])
  next
    case False
    with "1.prems" have "c \<in> set (digits (n div 10)) \<or> c = digit_char (n mod 10)"
      by (auto simp: digits.simps [of n])
    then show ?thesis
    proof
      assume "c \<in> set (digits (n div 10))"
      with "1.IH" False show ?thesis by simp
    next
      assume "c = digit_char (n mod 10)"
      moreover have "n mod 10 < 10" by simp
      ultimately show ?thesis by blast
    qed
  qed
qed

lemma digits_nonempty: "digits n \<noteq> []"
  by (subst digits.simps) simp

lemma radixValue_snoc:
  "radixValue R (Z @ [c]) = radixValue R Z * R + (case digitValue c of None \<Rightarrow> 0 | Some d \<Rightarrow> d)"
  by (simp add: radixValue_def)

lemma radixValue_digits: "radixValue 10 (digits n) = n"
proof (induction n rule: digits.induct)
  case (1 n)
  show ?case
  proof (cases "n < 10")
    case True
    then show ?thesis
      by (simp add: digits.simps [of n] radixValue_def digitValue_digit_char)
  next
    case False
    with "1.IH" have "radixValue 10 (digits (n div 10)) = n div 10" by simp
    with False show ?thesis
      by (simp add: digits.simps [of n] radixValue_snoc digitValue_digit_char)
  qed
qed

lemma digits_not_special:
  assumes "c \<in> set (digits n)"
  shows "\<not> isWhiteSpace c" and "c \<noteq> CHR ''+''" and "c \<noteq> CHR ''-''"
    and "c \<noteq> CHR ''x''" and "c \<noteq> CHR ''X''" and "isRadixDigit 10 c"
proof -
  from assms obtain d where d: "d < 10" "c = digit_char d"
    using digits_chars by blast
  then have v: "(of_char c :: nat) = 48 + d"
    by (simp add: of_char_digit_char)
  show "\<not> isWhiteSpace c"
    using d(1) by (simp add: isWhiteSpace_def v)
  show "c \<noteq> CHR ''+''" using v d(1) by auto
  show "c \<noteq> CHR ''-''" using v d(1) by auto
  show "c \<noteq> CHR ''x''" using v d(1) by auto
  show "c \<noteq> CHR ''X''" using v d(1) by auto
  show "isRadixDigit 10 c" using d by (simp add: isRadixDigit_digit_char)
qed

lemma parseInt_digits: "parseInt (digits n) = Some (int n)"
proof -
  obtain c r where cr: "digits n = c # r"
    using digits_nonempty [of n] by (cases "digits n") auto
  have c: "c \<in> set (digits n)" by (simp add: cr)
  have ws: "dropWhile isWhiteSpace (digits n) = digits n"
    using digits_not_special(1) [OF c] by (simp add: cr)
  have nohex: "\<not> (case digits n of a # b # _ \<Rightarrow> a = CHR ''0'' \<and> (b = CHR ''x'' \<or> b = CHR ''X'') | _ \<Rightarrow> False)"
  proof (cases r)
    case Nil
    then show ?thesis by (simp add: cr)
  next
    case (Cons b r')
    then have "b \<in> set (digits n)" by (simp add: cr)
    then have "b \<noteq> CHR ''x''" "b \<noteq> CHR ''X''"
      using digits_not_special by blast+
    then show ?thesis by (simp add: cr Cons)
  qed
  have tw: "takeWhile (isRadixDigit 10) (digits n) = digits n"
    using digits_not_special(6) by (simp add: takeWhile_eq_all_conv [THEN iffD2])
  have sign: "c \<noteq> CHR ''+''" "c \<noteq> CHR ''-''"
    using digits_not_special [OF c] by blast+
  have S1: "(case digits n of [] \<Rightarrow> digits n | c # r \<Rightarrow> if c = CHR ''+'' \<or> c = CHR ''-'' then r else digits n) = digits n"
    using sign by (simp add: cr)
  have sg: "(case digits n of [] \<Rightarrow> 1 | c # _ \<Rightarrow> if c = CHR ''-'' then - 1 else (1::int)) = 1"
    using sign by (simp add: cr)
  show ?thesis
    unfolding parseInt_def Let_def ws S1 sg
    using nohex by (simp add: tw radixValue_digits digits_nonempty)
qed

lemma parseInt_toString: "0 \<le> i \<Longrightarrow> parseInt (toString i) = Some i"
  by (simp add: toString_def parseInt_digits)

lemma indexOf_from_nth:
  "distinct xs \<Longrightarrow> i < length xs \<Longrightarrow> indexOf_from xs (xs ! i) k = k + int i"
proof (induction xs arbitrary: i k)
  case Nil
  then show ?case by simp
next
  case (Cons y ys)
  show ?case
  proof (cases i)
    case 0
    then show ?thesis by simp
  next
    case (Suc j)
    with Cons.prems have "ys ! j \<in> set ys" "y \<notin> set ys" "distinct ys" "j < length ys"
      by auto
    then have "y \<noteq> ys ! j" "indexOf_from ys (ys ! j) (k + 1) = k + 1 + int j"
      using Cons.IH by auto
    with Suc show ?thesis by simp
  qed
qed

section \<open>Address round trip\<close>

lemma toString_5: "toString 5 = ''5''"
  by code_simp

lemma toString_7: "toString 7 = ''7''"
  by code_simp

lemma getCellId_corners:
  "getCellId 0 0 = ''A1''" "getCellId 49 25 = ''Z50''" "getCellId 1 0 = ''A2''"
  by code_simp+

lemma getCellId_decode:
  assumes "0 \<le> row" and "row < ROWS" and "0 \<le> col" and "col < int (length COLUMNS)"
  shows "rowOf (getCellId row col) = Some row \<and> colOf (getCellId row col) = col"
proof -
  from assms(3,4) have n: "nat col < length COLUMNS" by simp
  then obtain c where c: "COLUMNS ! nat col = [c]"
    using COLUMNS_single [of "nat col"] by (auto simp: length_COLUMNS)
  have gid: "getCellId row col = c # toString (row + 1)"
    using assms(3,4) c by (simp add: getCellId_def)
  have "parseInt (toString (row + 1)) = Some (row + 1)"
    using assms(1) by (simp add: parseInt_toString)
  then have r: "rowOf (getCellId row col) = Some row"
    by (simp add: rowOf_def gid)
  have "indexOf COLUMNS (COLUMNS ! nat col) = int (nat col)"
    unfolding indexOf_def using indexOf_from_nth [OF distinct_COLUMNS n, of 0] by simp
  then have "colOf (getCellId row col) = col"
    using assms(3) by (simp add: colOf_def gid c)
  with r show ?thesis by simp
qed

text \<open>
  C2. For every row in [0,50) and every column in [0,26), decoding the cell id that
  \<open>getCellId\<close> produces gives the indices back: the row parse of the formula bar
  (\<open>parseInt\<close> of the id without its first character, minus 1) returns the row, and the
  column parse (the index of the first character among the column labels) returns the column.
\<close>

theorem address_round_trip:
  assumes "0 \<le> row" and "row < ROWS" and "0 \<le> col" and "col < int (length COLUMNS)"
  shows "rowOf (getCellId row col) = Some row \<and> colOf (getCellId row col) = col"
  using assms by (rule getCellId_decode)

theorem address_round_trip_witness:
  "(0::int) \<le> 49 \<and> 49 < ROWS \<and> (0::int) \<le> 25 \<and> 25 < int (length COLUMNS)
   \<and> getCellId 49 25 = ''Z50''
   \<and> rowOf (getCellId 49 25) = Some 49 \<and> colOf (getCellId 49 25) = 25"
proof -
  have h: "(0::int) \<le> 49" "49 < ROWS" "(0::int) \<le> 25" "25 < int (length COLUMNS)"
    by (simp_all add: ROWS_def length_COLUMNS)
  have g: "getCellId 49 25 = ''Z50''"
    by code_simp
  from h g address_round_trip [OF h] show ?thesis by simp
qed

section \<open>Writing a cell\<close>

lemma setCell_length: "length (setCell shs sid c v) = length shs"
  by (simp add: setCell_def)

lemma setCell_nth:
  "i < length shs \<Longrightarrow>
   setCell shs sid c v ! i =
     (if sheet_id (shs ! i) = sid then (shs ! i)\<lparr>data := (data (shs ! i))(c \<mapsto> v)\<rparr> else shs ! i)"
  by (simp add: setCell_def)

lemma setCell_ids: "map sheet_id (setCell shs sid c v) = map sheet_id shs"
  by (simp add: setCell_def)

lemma find_setCell:
  "find (\<lambda>sh. sheet_id sh = a) (setCell shs a c v) =
     map_option (\<lambda>sh. sh\<lparr>data := (data sh)(c \<mapsto> v)\<rparr>) (find (\<lambda>sh. sheet_id sh = a) shs)"
  by (induction shs) (simp_all add: setCell_def fun_upd_def)

lemma find_present:
  "a \<in> set (map sheet_id shs) \<Longrightarrow> \<exists>sh. find (\<lambda>sh. sheet_id sh = a) shs = Some sh \<and> sheet_id sh = a"
  by (induction shs) auto

lemma activeSheet_present:
  assumes "activeSheetId s \<in> set (map sheet_id (sheets s))"
  shows "\<exists>sh. activeSheet s = Some sh \<and> sheet_id sh = activeSheetId s"
  using find_present [OF assms] by (auto simp: activeSheet_def)

lemma activeSheet_after_write:
  assumes "activeSheetId s \<in> set (map sheet_id (sheets s))"
    and "sheets s' = setCell (sheets s) (activeSheetId s) c v"
    and "activeSheetId s' = activeSheetId s"
  shows "\<exists>sh. activeSheet s' = Some sh \<and> getCell sh c = v"
proof -
  from find_present [OF assms(1)] obtain sh where
    "find (\<lambda>sh. sheet_id sh = activeSheetId s) (sheets s) = Some sh" by blast
  then have "activeSheet s' = Some (sh\<lparr>data := (data sh)(c \<mapsto> v)\<rparr>)"
    by (simp add: activeSheet_def assms(2,3) find_setCell)
  then show ?thesis by (simp add: getCell_def)
qed

lemma activeSheet_cong:
  "sheets s' = sheets s \<Longrightarrow> activeSheetId s' = activeSheetId s \<Longrightarrow> activeSheet s' = activeSheet s"
  by (simp add: activeSheet_def cong: option.case_cong)

lemma pendingEdit_editing:
  "selectedCell s = Some c \<Longrightarrow> editingCell s = Some c \<Longrightarrow> c \<noteq> [] \<Longrightarrow> pendingEdit s = Some c"
  by (simp add: pendingEdit_def)

lemma handleCellBlur_editing:
  assumes "selectedCell s = Some c" and "editingCell s = Some c" and "c \<noteq> []"
  shows "handleCellBlur s s =
           s\<lparr>sheets := setCell (sheets s) (activeSheetId s) c (cellValue s), editingCell := None\<rparr>"
  using pendingEdit_editing [OF assms] by (simp add: handleCellBlur_def)

lemma handleKeyDown_Enter:
  "handleKeyDown s ''Enter'' row col =
     (if row < ROWS - 1 then handleCellClick s (handleCellBlur s s) (row + 1) col
      else Some (handleCellBlur s s))"
  by (simp add: handleKeyDown_def)

lemma handleKeyDown_Tab:
  "handleKeyDown s ''Tab'' row col =
     (if col < int (length COLUMNS) - 1 then handleCellClick s (handleCellBlur s s) row (col + 1)
      else Some (handleCellBlur s s))"
  by (simp add: handleKeyDown_def)

lemma handleKeyDown_ArrowDown:
  "handleKeyDown s ''ArrowDown'' row col =
     (if row < ROWS - 1 then handleCellClick s (handleCellBlur s s) (row + 1) col
      else Some (handleCellBlur s s))"
  by (simp add: handleKeyDown_def)

lemma handleKeyDown_ArrowUp:
  "handleKeyDown s ''ArrowUp'' row col =
     (if row > 0 then handleCellClick s (handleCellBlur s s) (row - 1) col
      else Some (handleCellBlur s s))"
  by (simp add: handleKeyDown_def)

lemma handleKeyDown_ArrowRight:
  "handleKeyDown s ''ArrowRight'' row col =
     (if col < int (length COLUMNS) - 1 then handleCellClick s (handleCellBlur s s) row (col + 1)
      else Some (handleCellBlur s s))"
  by (simp add: handleKeyDown_def)

lemma handleKeyDown_ArrowLeft:
  "handleKeyDown s ''ArrowLeft'' row col =
     (if col > 0 then handleCellClick s (handleCellBlur s s) row (col - 1)
      else Some (handleCellBlur s s))"
  by (simp add: handleKeyDown_def)

lemma directionKeys_cases:
  assumes "key \<in> set directionKeys"
  obtains "key = ''Enter''" | "key = ''Tab''" | "key = ''ArrowDown''" | "key = ''ArrowUp''"
    | "key = ''ArrowRight''" | "key = ''ArrowLeft''"
proof -
  from assms have "key = ''Enter'' \<or> key = ''Tab'' \<or> key = ''ArrowDown'' \<or> key = ''ArrowUp''
      \<or> key = ''ArrowRight'' \<or> key = ''ArrowLeft''"
    by (simp add: directionKeys_def)
  then show thesis
  proof (elim disjE)
    assume "key = ''Enter''" then show thesis by (rule that(1))
  next
    assume "key = ''Tab''" then show thesis by (rule that(2))
  next
    assume "key = ''ArrowDown''" then show thesis by (rule that(3))
  next
    assume "key = ''ArrowUp''" then show thesis by (rule that(4))
  next
    assume "key = ''ArrowRight''" then show thesis by (rule that(5))
  next
    assume "key = ''ArrowLeft''" then show thesis by (rule that(6))
  qed
qed

lemma handleKeyDown_move:
  assumes "key \<in> set directionKeys" and "inGrid row col"
  shows "handleKeyDown s key row col =
     (case destination key row col of
        (r, c) \<Rightarrow> if inGrid r c then handleCellClick s (handleCellBlur s s) r c
                  else Some (handleCellBlur s s))"
  using assms(1)
proof (cases rule: directionKeys_cases)
  case 1
  with assms(2) show ?thesis
    by (simp add: handleKeyDown_Enter destination_def inGrid_def)
next
  case 2
  with assms(2) show ?thesis
    by (simp add: handleKeyDown_Tab destination_def inGrid_def)
next
  case 3
  with assms(2) show ?thesis
    by (simp add: handleKeyDown_ArrowDown destination_def inGrid_def)
next
  case 4
  with assms(2) show ?thesis
    by (simp add: handleKeyDown_ArrowUp destination_def inGrid_def)
next
  case 5
  with assms(2) show ?thesis
    by (simp add: handleKeyDown_ArrowRight destination_def inGrid_def)
next
  case 6
  with assms(2) show ?thesis
    by (simp add: handleKeyDown_ArrowLeft destination_def inGrid_def)
qed

lemma handleKeyDown_direction:
  assumes "key \<in> set directionKeys"
  shows "handleKeyDown s key row col = Some (handleCellBlur s s)
       \<or> (\<exists>r c. handleKeyDown s key row col = handleCellClick s (handleCellBlur s s) r c)"
  using assms
proof (cases rule: directionKeys_cases)
  case 1
  then show ?thesis unfolding handleKeyDown_Enter 1 by (cases "row < ROWS - 1") auto
next
  case 2
  then show ?thesis unfolding handleKeyDown_Tab 2 by (cases "col < int (length COLUMNS) - 1") auto
next
  case 3
  then show ?thesis unfolding handleKeyDown_ArrowDown 3 by (cases "row < ROWS - 1") auto
next
  case 4
  then show ?thesis unfolding handleKeyDown_ArrowUp 4 by (cases "row > 0") auto
next
  case 5
  then show ?thesis unfolding handleKeyDown_ArrowRight 5 by (cases "col < int (length COLUMNS) - 1") auto
next
  case 6
  then show ?thesis unfolding handleKeyDown_ArrowLeft 6 by (cases "col > 0") auto
qed

lemma handleCellClick_keeps:
  assumes "activeSheetId snap \<in> set (map sheet_id (sheets snap))"
  shows "\<exists>s'. handleCellClick snap pend r c = Some s' \<and> sheets s' = sheets pend
          \<and> activeSheetId s' = activeSheetId pend"
proof -
  from activeSheet_present [OF assms] obtain sh where "activeSheet snap = Some sh" by blast
  then show ?thesis by (simp add: handleCellClick_def getCellValue_def)
qed

lemma handleKeyDown_commits:
  assumes key: "key \<in> set directionKeys"
    and ed: "selectedCell s = Some c" "editingCell s = Some c" "c \<noteq> []"
    and act: "activeSheetId s \<in> set (map sheet_id (sheets s))"
  shows "\<exists>s'. handleKeyDown s key row col = Some s'
          \<and> sheets s' = setCell (sheets s) (activeSheetId s) c (cellValue s)
          \<and> activeSheetId s' = activeSheetId s"
proof -
  have b: "handleCellBlur s s =
      s\<lparr>sheets := setCell (sheets s) (activeSheetId s) c (cellValue s), editingCell := None\<rparr>"
    by (rule handleCellBlur_editing [OF ed])
  from handleKeyDown_direction [OF key, of s row col] show ?thesis
  proof
    assume "handleKeyDown s key row col = Some (handleCellBlur s s)"
    then show ?thesis by (simp add: b)
  next
    assume "\<exists>r c. handleKeyDown s key row col = handleCellClick s (handleCellBlur s s) r c"
    then obtain r c' where k: "handleKeyDown s key row col = handleCellClick s (handleCellBlur s s) r c'"
      by blast
    from handleCellClick_keeps [OF act, of "handleCellBlur s s" r c'] show ?thesis
      by (auto simp: k b)
  qed
qed

lemma step_same_active:
  "handler s e = Some s' \<Longrightarrow> activeSheetId s' = activeSheetId s \<Longrightarrow> step s e = Some s'"
  by (simp add: step_def clearSelectionEffect_def)

lemma step_CellChange:
  "step s (CellChange v) = Some (s\<lparr>cellValue := v\<rparr>)"
  by (simp add: step_def clearSelectionEffect_def handleCellChange_def)

lemma commit_change:
  assumes "selectedCell s = Some c" and "editingCell s = Some c"
  shows "\<exists>s'. step s (CellChange v) = Some s' \<and> cellValue s' = v \<and> sheets s' = sheets s
            \<and> activeSheet s' = activeSheet s
            \<and> selectedCell s' = Some c \<and> editingCell s' = Some c"
proof (intro exI conjI)
  show "step s (CellChange v) = Some (s\<lparr>cellValue := v\<rparr>)" by (rule step_CellChange)
  show "activeSheet (s\<lparr>cellValue := v\<rparr>) = activeSheet s" by (rule activeSheet_cong) simp_all
qed (simp_all add: assms)

lemma commit_blur:
  assumes "selectedCell s = Some c" and "editingCell s = Some c" and "c \<noteq> []"
    and "activeSheetId s \<in> set (map sheet_id (sheets s))"
  shows "\<exists>s' sh. step s CellBlur = Some s' \<and> activeSheet s' = Some sh
            \<and> getCell sh c = cellValue s \<and> selectedCell s' = Some c \<and> editingCell s' = None"
proof -
  define s' where "s' = handleCellBlur s s"
  have eq: "s' = s\<lparr>sheets := setCell (sheets s) (activeSheetId s) c (cellValue s), editingCell := None\<rparr>"
    unfolding s'_def by (rule handleCellBlur_editing [OF assms(1-3)])
  have fields: "sheets s' = setCell (sheets s) (activeSheetId s) c (cellValue s)"
    "activeSheetId s' = activeSheetId s" "selectedCell s' = Some c" "editingCell s' = None"
    by (simp_all add: eq assms(1))
  have "handler s CellBlur = Some s'" by (simp add: s'_def)
  then have st: "step s CellBlur = Some s'"
    using fields(2) by (rule step_same_active)
  from activeSheet_after_write [OF assms(4) fields(1,2)]
  obtain sh where sh: "activeSheet s' = Some sh" "getCell sh c = cellValue s" by blast
  show ?thesis
    using st sh fields(3,4) by (intro exI [of _ s'] exI [of _ sh]) simp
qed

lemma commit_key:
  assumes "selectedCell s = Some c" and "editingCell s = Some c" and "c \<noteq> []"
    and "activeSheetId s \<in> set (map sheet_id (sheets s))"
    and key: "key \<in> set directionKeys"
  shows "\<exists>s' sh. step s (KeyDown key row col) = Some s' \<and> activeSheet s' = Some sh
              \<and> getCell sh c = cellValue s"
proof -
  from handleKeyDown_commits [OF key assms(1-4), of row col] obtain s' where
    s': "handleKeyDown s key row col = Some s'"
        "sheets s' = setCell (sheets s) (activeSheetId s) c (cellValue s)"
        "activeSheetId s' = activeSheetId s"
    by blast
  have "handler s (KeyDown key row col) = Some s'" by (simp add: s'(1))
  then have st: "step s (KeyDown key row col) = Some s'"
    using s'(3) by (rule step_same_active)
  from activeSheet_after_write [OF assms(4) s'(2,3)]
  obtain sh where sh: "activeSheet s' = Some sh" "getCell sh c = cellValue s" by blast
  show ?thesis
    using st sh by (intro exI [of _ s'] exI [of _ sh]) simp
qed

text \<open>
  C1. In an editing session on a cell (the cell is selected and being edited), a keystroke in
  the grid's input changes the draft only: the sheets, and so the stored value of the cell,
  stay as they are.  A commit (blur, or one of Enter, Tab and the four arrow keys) writes the
  draft to that cell of the active sheet, so that reading the cell afterwards gives the draft.
\<close>

theorem commit_on_blur:
  assumes "selectedCell s = Some c" and "editingCell s = Some c" and "c \<noteq> []"
    and "activeSheetId s \<in> set (map sheet_id (sheets s))"
  shows "(\<exists>s'. step s (CellChange v) = Some s' \<and> cellValue s' = v \<and> sheets s' = sheets s
            \<and> activeSheet s' = activeSheet s
            \<and> selectedCell s' = Some c \<and> editingCell s' = Some c)
       \<and> (\<exists>s' sh. step s CellBlur = Some s' \<and> activeSheet s' = Some sh
            \<and> getCell sh c = cellValue s \<and> selectedCell s' = Some c \<and> editingCell s' = None)
       \<and> (\<forall>key \<in> set directionKeys.
            \<exists>s' sh. step s (KeyDown key row col) = Some s' \<and> activeSheet s' = Some sh
              \<and> getCell sh c = cellValue s)"
  using commit_change [OF assms(1,2)] commit_blur [OF assms] commit_key [OF assms]
  by (intro conjI ballI)

lemma getCellId_B2: "getCellId 1 1 = ''B2''"
  by code_simp

lemma run_to_editingB2: "run initialState [CellClick 1 1, CellChange ''42''] = Some editingB2"
  by (simp add: step_def clearSelectionEffect_def handleCellClick_def getCellValue_def
      activeSheet_def getCell_def getCellId_B2 handleCellChange_def initialState_def editingB2_def)

theorem commit_on_blur_witness:
  "run initialState [CellClick 1 1, CellChange ''42''] = Some editingB2
   \<and> selectedCell editingB2 = Some ''B2'' \<and> editingCell editingB2 = Some ''B2'' \<and> ''B2'' \<noteq> []
   \<and> activeSheetId editingB2 \<in> set (map sheet_id (sheets editingB2))
   \<and> ''Enter'' \<in> set directionKeys
   \<and> map_option (\<lambda>sh. getCell sh ''B2'') (activeSheet editingB2) = Some []
   \<and> (\<exists>s'. step editingB2 (CellChange ''421'') = Some s' \<and> cellValue s' = ''421''
          \<and> activeSheet s' = activeSheet editingB2)
   \<and> (\<exists>s' sh. step editingB2 CellBlur = Some s' \<and> activeSheet s' = Some sh
          \<and> getCell sh ''B2'' = ''42'' \<and> selectedCell s' = Some ''B2'' \<and> editingCell s' = None)
   \<and> (\<exists>s' sh. step editingB2 (KeyDown ''Enter'' 1 1) = Some s' \<and> activeSheet s' = Some sh
          \<and> getCell sh ''B2'' = ''42'')"
proof -
  have h: "selectedCell editingB2 = Some ''B2''" "editingCell editingB2 = Some ''B2''" "''B2'' \<noteq> []"
    "activeSheetId editingB2 \<in> set (map sheet_id (sheets editingB2))"
    by (simp_all add: editingB2_def initialState_def)
  have k: "''Enter'' \<in> set directionKeys"
    by (simp add: directionKeys_def)
  have v: "cellValue editingB2 = ''42''"
    by (simp add: editingB2_def)
  have before: "map_option (\<lambda>sh. getCell sh ''B2'') (activeSheet editingB2) = Some []"
    by (simp add: editingB2_def initialState_def activeSheet_def getCell_def)
  note t = commit_on_blur [OF h, of "''421''" 1 1, unfolded v]
  from t have c1: "\<exists>s'. step editingB2 (CellChange ''421'') = Some s' \<and> cellValue s' = ''421''
          \<and> activeSheet s' = activeSheet editingB2"
    by blast
  from t have c2: "\<exists>s' sh. step editingB2 CellBlur = Some s' \<and> activeSheet s' = Some sh
          \<and> getCell sh ''B2'' = ''42'' \<and> selectedCell s' = Some ''B2'' \<and> editingCell s' = None"
    by (elim conjE)
  from t k have c3: "\<exists>s' sh. step editingB2 (KeyDown ''Enter'' 1 1) = Some s' \<and> activeSheet s' = Some sh
          \<and> getCell sh ''B2'' = ''42''"
    by (elim conjE) (erule bspec)
  from run_to_editingB2 h k before c1 c2 c3 show ?thesis
    by (intro conjI)
qed

lemma nth_other_id:
  assumes "distinct (map sheet_id shs)" and "i < length shs" and "j < length shs" and "j \<noteq> i"
  shows "sheet_id (shs ! j) \<noteq> sheet_id (shs ! i)"
proof
  assume e: "sheet_id (shs ! j) = sheet_id (shs ! i)"
  from assms(2,3) have l: "i < length (map sheet_id shs)" "j < length (map sheet_id shs)"
    by simp_all
  from e assms(2,3) have "map sheet_id shs ! j = map sheet_id shs ! i" by simp
  with nth_eq_iff_index_eq [OF assms(1) l(2) l(1)] have "j = i" by blast
  with assms(4) show False by simp
qed

text \<open>
  C6 (as amended). The cell write changes at most the entry of the given cell in the cell maps
  of the sheets that carry the target id, which is a single sheet when the ids of the
  collection are pairwise different: the list keeps its length, every sheet with another id
  is the same record as before (so reading the same cell of such a sheet gives what it gave
  before), and a sheet with the target id keeps its id, name and geometry and every other
  cell.
\<close>

theorem setCell_frame:
  assumes "i < length shs"
  shows "length (setCell shs sid c v) = length shs
    \<and> (sheet_id (shs ! i) \<noteq> sid \<longrightarrow>
          setCell shs sid c v ! i = shs ! i
          \<and> getCell (setCell shs sid c v ! i) c = getCell (shs ! i) c)
    \<and> (sheet_id (shs ! i) = sid \<longrightarrow>
          sheet_id (setCell shs sid c v ! i) = sheet_id (shs ! i)
          \<and> name (setCell shs sid c v ! i) = name (shs ! i)
          \<and> columnWidths (setCell shs sid c v ! i) = columnWidths (shs ! i)
          \<and> rowHeights (setCell shs sid c v ! i) = rowHeights (shs ! i)
          \<and> data (setCell shs sid c v ! i) c = Some v
          \<and> (\<forall>c'. c' \<noteq> c \<longrightarrow> data (setCell shs sid c v ! i) c' = data (shs ! i) c')
          \<and> (distinct (map sheet_id shs) \<longrightarrow>
                (\<forall>j < length shs. j \<noteq> i \<longrightarrow> setCell shs sid c v ! j = shs ! j)))"
proof -
  have other: "setCell shs sid c v ! j = shs ! j"
    if "sheet_id (shs ! i) = sid" and "distinct (map sheet_id shs)" and "j < length shs" and "j \<noteq> i" for j
  proof -
    from nth_other_id [OF that(2) assms that(3,4)] that(1) have "sheet_id (shs ! j) \<noteq> sid" by simp
    with that(3) show ?thesis by (simp add: setCell_nth)
  qed
  have base: "length (setCell shs sid c v) = length shs
    \<and> (sheet_id (shs ! i) \<noteq> sid \<longrightarrow>
          setCell shs sid c v ! i = shs ! i
          \<and> getCell (setCell shs sid c v ! i) c = getCell (shs ! i) c)
    \<and> (sheet_id (shs ! i) = sid \<longrightarrow>
          sheet_id (setCell shs sid c v ! i) = sheet_id (shs ! i)
          \<and> name (setCell shs sid c v ! i) = name (shs ! i)
          \<and> columnWidths (setCell shs sid c v ! i) = columnWidths (shs ! i)
          \<and> rowHeights (setCell shs sid c v ! i) = rowHeights (shs ! i)
          \<and> data (setCell shs sid c v ! i) c = Some v
          \<and> (\<forall>c'. c' \<noteq> c \<longrightarrow> data (setCell shs sid c v ! i) c' = data (shs ! i) c'))"
    using assms by (simp add: setCell_length setCell_nth)
  from base other show ?thesis by blast
qed

text \<open>
  C6 as stated fails on a collection in which two sheets carry the same id: one write, and so
  one commit, changes the cell in both of them.
\<close>

theorem setCell_counterexample:
  "map_option (map sheet_id \<circ> sheets) (run initialState [AddNewSheet 5, AddNewSheet 5])
     = Some [''1'', ''5'', ''5'']
   \<and> map_option (cellColumn ''A1'' \<circ> sheets) (run initialState [AddNewSheet 5, AddNewSheet 5])
     = Some [[], [], []]
   \<and> map_option (cellColumn ''A1'' \<circ> sheets)
       (run initialState [AddNewSheet 5, AddNewSheet 5, CellClick 0 0, CellChange ''x'', CellBlur])
     = Some [[], ''x'', ''x'']
   \<and> cellColumn ''A1'' (setCell (sheets equalIdsState) ''5'' ''A1'' ''x'') = [[], ''x'', ''x'']"
  by (simp add: step_def clearSelectionEffect_def addNewSheet_def Let_def initialState_def toString_5
      handleCellClick_def getCellValue_def activeSheet_def getCell_def getCellId_corners
      handleCellChange_def handleCellBlur_def pendingEdit_def setCell_def cellColumn_def
      equalIdsState_def)

theorem setCell_frame_witness:
  "(0::nat) < length twoSheets \<and> (1::nat) < length twoSheets
   \<and> sheet_id (twoSheets ! 1) \<noteq> ''1'' \<and> sheet_id (twoSheets ! 0) = ''1''
   \<and> ''B1'' \<noteq> ''A1'' \<and> distinct (map sheet_id twoSheets) \<and> (1::nat) \<noteq> 0
   \<and> setCell twoSheets ''1'' ''A1'' ''x'' ! 1 = twoSheets ! 1
   \<and> getCell (setCell twoSheets ''1'' ''A1'' ''x'' ! 1) ''A1'' = []
   \<and> getCell (setCell twoSheets ''1'' ''A1'' ''x'' ! 0) ''A1'' = ''x''
   \<and> data (setCell twoSheets ''1'' ''A1'' ''x'' ! 0) ''B1'' = None"
proof -
  have h1: "(1::nat) < length twoSheets" and h0: "(0::nat) < length twoSheets"
    by (simp_all add: twoSheets_def)
  have a: "sheet_id (twoSheets ! 1) \<noteq> ''1''" and b: "sheet_id (twoSheets ! 0) = ''1''"
    by (simp_all add: twoSheets_def)
  have d: "distinct (map sheet_id twoSheets)"
    by (simp add: twoSheets_def)
  have g: "getCell (twoSheets ! 1) ''A1'' = []" "data (twoSheets ! 0) ''B1'' = None"
    by (simp_all add: twoSheets_def getCell_def)
  note t0 = setCell_frame [OF h0, of "''1''" "''A1''" "''x''"]
  from t0 b have zero: "data (setCell twoSheets ''1'' ''A1'' ''x'' ! 0) ''A1'' = Some ''x''"
    "\<forall>c'. c' \<noteq> ''A1'' \<longrightarrow> data (setCell twoSheets ''1'' ''A1'' ''x'' ! 0) c' = data (twoSheets ! 0) c'"
    "distinct (map sheet_id twoSheets) \<longrightarrow>
       (\<forall>j < length twoSheets. j \<noteq> 0 \<longrightarrow> setCell twoSheets ''1'' ''A1'' ''x'' ! j = twoSheets ! j)"
    by blast+
  from zero(2) g(2) have z2: "data (setCell twoSheets ''1'' ''A1'' ''x'' ! 0) ''B1'' = None"
    by simp
  from zero(3) d h1 have one: "setCell twoSheets ''1'' ''A1'' ''x'' ! 1 = twoSheets ! 1"
    by simp
  with g(1) have one': "getCell (setCell twoSheets ''1'' ''A1'' ''x'' ! 1) ''A1'' = []"
    by simp
  from zero(1) have z1: "getCell (setCell twoSheets ''1'' ''A1'' ''x'' ! 0) ''A1'' = ''x''"
    by (simp add: getCell_def)
  from h0 h1 a b d one one' z1 z2 show ?thesis by simp
qed

section \<open>Operations on an unknown sheet id\<close>

lemma filter_unknown: "sid \<notin> set (map sheet_id shs) \<Longrightarrow> filter (\<lambda>sh. sheet_id sh \<noteq> sid) shs = shs"
  by (induction shs) auto

lemma map_rename_unknown:
  "sid \<notin> set (map sheet_id shs) \<Longrightarrow>
   map (\<lambda>sheet. if sheet_id sheet = sid then sheet\<lparr>name := n\<rparr> else sheet) shs = shs"
  by (induction shs) auto

text \<open>
  C10. For a sheet id that no sheet of the collection carries, \<open>renameSheet\<close> returns the
  state as it was, and so does \<open>deleteSheet\<close> on a collection whose active sheet id names one
  of its sheets: nothing is removed, the active sheet id stays, and nothing is thrown.
\<close>

theorem unknown_id_noop:
  assumes "sid \<notin> set (map sheet_id (sheets s))"
  shows "renameSheet s sid n = s
       \<and> (activeSheetId s \<in> set (map sheet_id (sheets s)) \<longrightarrow> deleteSheet s sid = Some s)"
proof -
  have "renameSheet s sid n = s"
    using assms by (simp add: renameSheet_def map_rename_unknown)
  moreover have "deleteSheet s sid = Some s" if "activeSheetId s \<in> set (map sheet_id (sheets s))"
  proof -
    from that assms have "activeSheetId s \<noteq> sid" by auto
    then show ?thesis
      using assms by (simp add: deleteSheet_def filter_unknown)
  qed
  ultimately show ?thesis by simp
qed

lemma twoSheetState_ids:
  "map sheet_id (sheets twoSheetState) = [''1'', ''5'']" "activeSheetId twoSheetState = ''5''"
  by (simp_all add: twoSheetState_def addNewSheet_def initialState_def Let_def toString_5)

theorem unknown_id_noop_witness:
  "''9'' \<notin> set (map sheet_id (sheets twoSheetState))
   \<and> activeSheetId twoSheetState \<in> set (map sheet_id (sheets twoSheetState))
   \<and> length (sheets twoSheetState) = 2
   \<and> renameSheet twoSheetState ''9'' ''Budget'' = twoSheetState
   \<and> deleteSheet twoSheetState ''9'' = Some twoSheetState"
proof -
  have h: "''9'' \<notin> set (map sheet_id (sheets twoSheetState))"
    by (simp add: twoSheetState_ids)
  have a: "activeSheetId twoSheetState \<in> set (map sheet_id (sheets twoSheetState))"
    by (simp add: twoSheetState_ids)
  have l: "length (sheets twoSheetState) = 2"
    using twoSheetState_ids(1) by (metis length_map length_Cons list.size(3) numeral_2_eq_2)
  from unknown_id_noop [OF h, of "''Budget''"] a h l show ?thesis by simp
qed

section \<open>Deleting a sheet\<close>

lemma filter_ids_nonempty:
  assumes "distinct (map sheet_id shs)" and "2 \<le> length shs"
  shows "filter (\<lambda>sh. sheet_id sh \<noteq> sid) shs \<noteq> []"
proof -
  from assms(2) obtain a b rest where shs: "shs = a # b # rest"
    by (cases shs; cases "tl shs") auto
  with assms(1) have "sheet_id a \<noteq> sheet_id b" by simp
  then have "sheet_id a \<noteq> sid \<or> sheet_id b \<noteq> sid" by auto
  then show ?thesis by (auto simp: shs)
qed

lemma filter_ids_length:
  "distinct (map sheet_id shs) \<Longrightarrow> length shs \<le> length (filter (\<lambda>sh. sheet_id sh \<noteq> sid) shs) + 1"
proof (induction shs)
  case Nil
  then show ?case by simp
next
  case (Cons a shs)
  show ?case
  proof (cases "sheet_id a = sid")
    case True
    with Cons.prems have "sid \<notin> set (map sheet_id shs)" by auto
    then have "filter (\<lambda>sh. sheet_id sh \<noteq> sid) shs = shs" by (rule filter_unknown)
    with True show ?thesis by simp
  next
    case False
    with Cons show ?thesis by simp
  qed
qed

text \<open>
  C7 (as amended). On a collection of exactly one sheet \<open>deleteSheet\<close> returns the state
  unchanged.  Otherwise it removes every sheet that carries the given id and keeps the others
  in order; when the id was not the active one the active id stays, and when it was and a
  sheet remains, the first of the remaining sheets becomes active; nothing else changes.  On
  a non-empty collection with pairwise different ids at most one sheet is removed and a sheet
  always remains.
\<close>

theorem deleteSheet_cases:
  "(length (sheets s) = 1 \<longrightarrow> deleteSheet s sid = Some s)
   \<and> (length (sheets s) \<noteq> 1
        \<and> (activeSheetId s \<noteq> sid \<or> filter (\<lambda>sh. sheet_id sh \<noteq> sid) (sheets s) \<noteq> []) \<longrightarrow>
        (\<exists>s'. deleteSheet s sid = Some s'
           \<and> sheets s' = filter (\<lambda>sh. sheet_id sh \<noteq> sid) (sheets s)
           \<and> activeSheetId s' =
                (if activeSheetId s = sid then sheet_id (hd (sheets s')) else activeSheetId s)
           \<and> s' = s\<lparr>sheets := sheets s', activeSheetId := activeSheetId s'\<rparr>))
   \<and> (sheets s \<noteq> [] \<and> distinct (map sheet_id (sheets s)) \<and> length (sheets s) \<noteq> 1 \<longrightarrow>
        filter (\<lambda>sh. sheet_id sh \<noteq> sid) (sheets s) \<noteq> []
        \<and> length (sheets s) \<le> length (filter (\<lambda>sh. sheet_id sh \<noteq> sid) (sheets s)) + 1)"
proof (intro conjI impI)
  assume "length (sheets s) = 1"
  then show "deleteSheet s sid = Some s" by (simp add: deleteSheet_def)
next
  assume a: "length (sheets s) \<noteq> 1
        \<and> (activeSheetId s \<noteq> sid \<or> filter (\<lambda>sh. sheet_id sh \<noteq> sid) (sheets s) \<noteq> [])"
  then have n: "length (sheets s) \<noteq> 1" by simp
  show "\<exists>s'. deleteSheet s sid = Some s'
           \<and> sheets s' = filter (\<lambda>sh. sheet_id sh \<noteq> sid) (sheets s)
           \<and> activeSheetId s' =
                (if activeSheetId s = sid then sheet_id (hd (sheets s')) else activeSheetId s)
           \<and> s' = s\<lparr>sheets := sheets s', activeSheetId := activeSheetId s'\<rparr>"
  proof (cases "activeSheetId s = sid")
    case True
    with a obtain sh rest where f: "filter (\<lambda>sh. sheet_id sh \<noteq> sid) (sheets s) = sh # rest"
      by (cases "filter (\<lambda>sh. sheet_id sh \<noteq> sid) (sheets s)") auto
    with True n have "deleteSheet s sid = Some (s\<lparr>sheets := sh # rest, activeSheetId := sheet_id sh\<rparr>)"
      by (simp add: deleteSheet_def)
    with True f show ?thesis by simp
  next
    case False
    with n have "deleteSheet s sid =
        Some (s\<lparr>sheets := filter (\<lambda>sh. sheet_id sh \<noteq> sid) (sheets s)\<rparr>)"
      by (simp add: deleteSheet_def)
    with False show ?thesis by simp
  qed
next
  assume a: "sheets s \<noteq> [] \<and> distinct (map sheet_id (sheets s)) \<and> length (sheets s) \<noteq> 1"
  then have "2 \<le> length (sheets s)"
    by (cases "sheets s") (auto simp: Suc_le_eq)
  with a show "filter (\<lambda>sh. sheet_id sh \<noteq> sid) (sheets s) \<noteq> []"
    by (intro filter_ids_nonempty) simp_all
next
  assume "sheets s \<noteq> [] \<and> distinct (map sheet_id (sheets s)) \<and> length (sheets s) \<noteq> 1"
  then show "length (sheets s) \<le> length (filter (\<lambda>sh. sheet_id sh \<noteq> sid) (sheets s)) + 1"
    by (intro filter_ids_length) simp
qed

lemma threeSheetState_ids:
  "map sheet_id (sheets threeSheetState) = [''1'', ''5'', ''7'']" "activeSheetId threeSheetState = ''7''"
  by (simp_all add: threeSheetState_def addNewSheet_def initialState_def Let_def toString_5 toString_7)

text \<open>
  C7 as stated fails on collections in which sheets share an id.  After two additions at the
  same clock reading, deleting that id from the three sheets removes two of them; and once
  the initial sheet is deleted, deleting the active id from the two sheets left removes both
  and \<open>newSheets[0].id\<close> throws.
\<close>

theorem deleteSheet_counterexample:
  "map_option (map sheet_id \<circ> sheets) (run initialState [AddNewSheet 5, AddNewSheet 5])
     = Some [''1'', ''5'', ''5'']
   \<and> map_option (map sheet_id \<circ> sheets)
       (run initialState [AddNewSheet 5, AddNewSheet 5, DeleteSheet ''5'']) = Some [''1'']
   \<and> map_option (map sheet_id \<circ> sheets)
       (run initialState [AddNewSheet 5, AddNewSheet 5, DeleteSheet ''1'']) = Some [''5'', ''5'']
   \<and> map_option activeSheetId
       (run initialState [AddNewSheet 5, AddNewSheet 5, DeleteSheet ''1'']) = Some ''5''
   \<and> dispatchableRun initialState [AddNewSheet 5, AddNewSheet 5, DeleteSheet ''1'', DeleteSheet ''5'']
   \<and> run initialState [AddNewSheet 5, AddNewSheet 5, DeleteSheet ''1'', DeleteSheet ''5''] = None"
  by (simp add: step_def clearSelectionEffect_def addNewSheet_def deleteSheet_def dispatchable_def
      Let_def initialState_def toString_5)

theorem deleteSheet_cases_witness:
  "length (sheets initialState) = 1
   \<and> deleteSheet initialState ''1'' = Some initialState
   \<and> sheets threeSheetState \<noteq> [] \<and> distinct (map sheet_id (sheets threeSheetState))
   \<and> length (sheets threeSheetState) \<noteq> 1
   \<and> filter (\<lambda>sh. sheet_id sh \<noteq> ''7'') (sheets threeSheetState) \<noteq> []
   \<and> activeSheetId threeSheetState \<noteq> ''1''
   \<and> map_option (\<lambda>s'. (map sheet_id (sheets s'), activeSheetId s')) (deleteSheet threeSheetState ''7'')
       = Some ([''1'', ''5''], ''1'')
   \<and> map_option (\<lambda>s'. (map sheet_id (sheets s'), activeSheetId s')) (deleteSheet threeSheetState ''1'')
       = Some ([''5'', ''7''], ''7'')"
proof -
  have i: "length (sheets initialState) = 1"
    by (simp add: initialState_def)
  have ids: "map sheet_id (sheets threeSheetState) = [''1'', ''5'', ''7'']"
    and act: "activeSheetId threeSheetState = ''7''"
    by (rule threeSheetState_ids)+
  have t: "sheets threeSheetState \<noteq> []" "distinct (map sheet_id (sheets threeSheetState))"
    using ids by auto
  have l: "length (sheets threeSheetState) \<noteq> 1"
    using arg_cong [OF ids, of length] by simp
  have f7: "map sheet_id (filter (\<lambda>sh. sheet_id sh \<noteq> ''7'') (sheets threeSheetState)) = [''1'', ''5'']"
    and f1: "map sheet_id (filter (\<lambda>sh. sheet_id sh \<noteq> ''1'') (sheets threeSheetState)) = [''5'', ''7'']"
    by (simp_all add: threeSheetState_def addNewSheet_def initialState_def Let_def toString_5 toString_7)
  have a1: "activeSheetId threeSheetState \<noteq> ''1''" by (simp add: act)
  from deleteSheet_cases [of initialState "''1''"] i
  have a: "deleteSheet initialState ''1'' = Some initialState" by blast
  from deleteSheet_cases [of threeSheetState "''7''"] t l
  have ne7: "filter (\<lambda>sh. sheet_id sh \<noteq> ''7'') (sheets threeSheetState) \<noteq> []" by blast
  with deleteSheet_cases [of threeSheetState "''7''"] l obtain s7 where
    s7: "deleteSheet threeSheetState ''7'' = Some s7"
        "sheets s7 = filter (\<lambda>sh. sheet_id sh \<noteq> ''7'') (sheets threeSheetState)"
        "activeSheetId s7 = (if activeSheetId threeSheetState = ''7'' then sheet_id (hd (sheets s7))
                             else activeSheetId threeSheetState)"
    by blast
  from s7(2) f7 have "sheet_id (hd (sheets s7)) = ''1''"
    by (cases "sheets s7") auto
  with s7 f7 act have b: "map_option (\<lambda>s'. (map sheet_id (sheets s'), activeSheetId s'))
      (deleteSheet threeSheetState ''7'') = Some ([''1'', ''5''], ''1'')"
    by simp
  from deleteSheet_cases [of threeSheetState "''1''"] l a1 obtain s1 where
    s1: "deleteSheet threeSheetState ''1'' = Some s1"
        "sheets s1 = filter (\<lambda>sh. sheet_id sh \<noteq> ''1'') (sheets threeSheetState)"
        "activeSheetId s1 = (if activeSheetId threeSheetState = ''1'' then sheet_id (hd (sheets s1))
                             else activeSheetId threeSheetState)"
    by blast
  with f1 act have c: "map_option (\<lambda>s'. (map sheet_id (sheets s'), activeSheetId s'))
      (deleteSheet threeSheetState ''1'') = Some ([''5'', ''7''], ''7'')"
    by simp
  from i a t l ne7 a1 b c show ?thesis by (intro conjI)
qed

section \<open>The formula bar\<close>

lemma formulaBarChange_selected:
  assumes "selectedCell s = Some c" and "c \<noteq> []"
  shows "formulaBarChange s v = s\<lparr>cellValue := v, sheets := setCell (sheets s) (activeSheetId s) c v\<rparr>"
  using assms by (simp add: formulaBarChange_def)

lemma step_FormulaBarChange:
  "step s (FormulaBarChange v) = Some (formulaBarChange s v)"
  by (simp add: step_def clearSelectionEffect_def formulaBarChange_def split: option.splits)

text \<open>
  C9. With a cell selected, a keystroke in the formula bar writes the typed value to that cell
  of the active sheet at once, whether or not a grid edit of the cell is open, and makes it
  the draft as well.  Of two writes to the same cell the later one stays: a formula-bar
  keystroke after an uncommitted grid edit leaves the formula-bar value in the store, also
  after the grid edit is committed, and a grid draft typed and committed after the keystroke
  replaces it.
\<close>

theorem formula_bar_writes_through:
  assumes "selectedCell s = Some c" and "c \<noteq> []"
    and "activeSheetId s \<in> set (map sheet_id (sheets s))"
  shows "\<exists>s1 sh1. step s (FormulaBarChange v) = Some s1
           \<and> activeSheet s1 = Some sh1 \<and> getCell sh1 c = v
           \<and> cellValue s1 = v \<and> selectedCell s1 = Some c \<and> editingCell s1 = editingCell s
           \<and> (editingCell s = Some c \<longrightarrow>
                (\<exists>s2 sh2. step s1 CellBlur = Some s2 \<and> activeSheet s2 = Some sh2 \<and> getCell sh2 c = v)
              \<and> (\<exists>s2 s3 sh3. step s1 (CellChange w) = Some s2 \<and> step s2 CellBlur = Some s3
                    \<and> activeSheet s3 = Some sh3 \<and> getCell sh3 c = w))"
proof -
  define s1 where "s1 = formulaBarChange s v"
  have eq: "s1 = s\<lparr>cellValue := v, sheets := setCell (sheets s) (activeSheetId s) c v\<rparr>"
    unfolding s1_def by (rule formulaBarChange_selected [OF assms(1,2)])
  have f: "sheets s1 = setCell (sheets s) (activeSheetId s) c v" "activeSheetId s1 = activeSheetId s"
    "cellValue s1 = v" "selectedCell s1 = Some c" "editingCell s1 = editingCell s"
    by (simp_all add: eq assms(1))
  have st: "step s (FormulaBarChange v) = Some s1"
    by (simp add: step_FormulaBarChange s1_def)
  from activeSheet_after_write [OF assms(3) f(1,2)]
  obtain sh1 where sh1: "activeSheet s1 = Some sh1" "getCell sh1 c = v" by blast
  have act1: "activeSheetId s1 \<in> set (map sheet_id (sheets s1))"
    using assms(3) by (simp add: f setCell_ids)
  have later: "(\<exists>s2 sh2. step s1 CellBlur = Some s2 \<and> activeSheet s2 = Some sh2 \<and> getCell sh2 c = v)
      \<and> (\<exists>s2 s3 sh3. step s1 (CellChange w) = Some s2 \<and> step s2 CellBlur = Some s3
            \<and> activeSheet s3 = Some sh3 \<and> getCell sh3 c = w)"
    if ed: "editingCell s = Some c"
  proof
    from ed have ed1: "editingCell s1 = Some c" by (simp add: f)
    from commit_blur [OF f(4) ed1 assms(2) act1]
    show "\<exists>s2 sh2. step s1 CellBlur = Some s2 \<and> activeSheet s2 = Some sh2 \<and> getCell sh2 c = v"
      unfolding f(3) by blast
    define s2 where "s2 = s1\<lparr>cellValue := w\<rparr>"
    have s2: "step s1 (CellChange w) = Some s2" "selectedCell s2 = Some c" "editingCell s2 = Some c"
      "activeSheetId s2 \<in> set (map sheet_id (sheets s2))" "cellValue s2 = w"
      using f(4) ed1 act1 by (simp_all add: s2_def step_CellChange)
    from commit_blur [OF s2(2,3) assms(2) s2(4)]
    obtain s3 sh3 where "step s2 CellBlur = Some s3" "activeSheet s3 = Some sh3" "getCell sh3 c = w"
      unfolding s2(5) by blast
    with s2(1)
    show "\<exists>s2 s3 sh3. step s1 (CellChange w) = Some s2 \<and> step s2 CellBlur = Some s3
            \<and> activeSheet s3 = Some sh3 \<and> getCell sh3 c = w"
      by blast
  qed
  show ?thesis
    using st sh1 f(3,4,5) later
    by (intro exI [of _ s1] exI [of _ sh1]) simp
qed

lemma getCellId_C3: "getCellId 2 2 = ''C3''"
  by code_simp

lemma run_to_editingC3: "run initialState [CellClick 2 2, CellChange ''grid''] = Some editingC3"
  by (simp add: step_def clearSelectionEffect_def handleCellClick_def getCellValue_def
      activeSheet_def getCell_def getCellId_C3 handleCellChange_def initialState_def editingC3_def)

theorem formula_bar_writes_through_witness:
  "run initialState [CellClick 2 2, CellChange ''grid''] = Some editingC3
   \<and> selectedCell editingC3 = Some ''C3'' \<and> ''C3'' \<noteq> []
   \<and> activeSheetId editingC3 \<in> set (map sheet_id (sheets editingC3))
   \<and> editingCell editingC3 = Some ''C3''
   \<and> map_option (\<lambda>sh. getCell sh ''C3'') (activeSheet editingC3) = Some []
   \<and> (\<exists>s1 sh1. step editingC3 (FormulaBarChange ''bar'') = Some s1
          \<and> activeSheet s1 = Some sh1 \<and> getCell sh1 ''C3'' = ''bar''
          \<and> (\<exists>s2 sh2. step s1 CellBlur = Some s2 \<and> activeSheet s2 = Some sh2
                \<and> getCell sh2 ''C3'' = ''bar''))"
proof -
  have h: "selectedCell editingC3 = Some ''C3''" "''C3'' \<noteq> []"
    "activeSheetId editingC3 \<in> set (map sheet_id (sheets editingC3))"
    by (simp_all add: editingC3_def initialState_def)
  have e: "editingCell editingC3 = Some ''C3''"
    by (simp add: editingC3_def)
  have before: "map_option (\<lambda>sh. getCell sh ''C3'') (activeSheet editingC3) = Some []"
    by (simp add: editingC3_def initialState_def activeSheet_def getCell_def)
  from formula_bar_writes_through [OF h, of "''bar''" "''later''"] e
  have "\<exists>s1 sh1. step editingC3 (FormulaBarChange ''bar'') = Some s1
          \<and> activeSheet s1 = Some sh1 \<and> getCell sh1 ''C3'' = ''bar''
          \<and> (\<exists>s2 sh2. step s1 CellBlur = Some s2 \<and> activeSheet s2 = Some sh2
                \<and> getCell sh2 ''C3'' = ''bar'')"
    by (elim exE conjE) (simp only: simp_thms, blast)
  with run_to_editingC3 h e before show ?thesis by (intro conjI)
qed

section \<open>Switching sheets\<close>

lemma sheetTabClick_editing:
  assumes "selectedCell s = Some c" and "editingCell s = Some c" and "c \<noteq> []"
  shows "sheetTabClick s target =
           s\<lparr>sheets := setCell (sheets s) (activeSheetId s) c (cellValue s), activeSheetId := target\<rparr>"
  using pendingEdit_editing [OF assms] by (simp add: sheetTabClick_def)




text \<open>
  A click on the tab of the sheet that is already active is no switch: the draft is written,
  the active id is set to the value it has, the effect does not run, and the cell stays
  selected and in editing.
\<close>

lemma sheetTabClick_active_tab:
  assumes "selectedCell s = Some c" and "editingCell s = Some c" and "c \<noteq> []"
  shows "step s (SheetTabClick (activeSheetId s)) =
           Some (s\<lparr>sheets := setCell (sheets s) (activeSheetId s) c (cellValue s)\<rparr>)"
  by (simp add: step_def clearSelectionEffect_def sheetTabClick_editing [OF assms])

section \<open>Keyboard navigation\<close>

lemma getCellId_nonempty: "inGrid row col \<Longrightarrow> getCellId row col \<noteq> []"
  by (simp add: getCellId_def inGrid_def toString_def digits_nonempty)

lemma getCellId_inj:
  assumes "inGrid row col" and "inGrid r c" and "getCellId row col = getCellId r c"
  shows "row = r \<and> col = c"
proof -
  from assms(1) have "0 \<le> row" "row < ROWS" "0 \<le> col" "col < int (length COLUMNS)"
    by (simp_all add: inGrid_def)
  then have 1: "rowOf (getCellId row col) = Some row \<and> colOf (getCellId row col) = col"
    by (rule getCellId_decode)
  from assms(2) have "0 \<le> r" "r < ROWS" "0 \<le> c" "c < int (length COLUMNS)"
    by (simp_all add: inGrid_def)
  then have 2: "rowOf (getCellId r c) = Some r \<and> colOf (getCellId r c) = c"
    by (rule getCellId_decode)
  from 1 2 have "Some row = Some r" "col = c"
    unfolding assms(3) by (metis, metis)
  then show ?thesis by simp
qed

lemma destination_moves:
  assumes "key \<in> set directionKeys"
  shows "destination key row col \<noteq> (row, col)"
  using assms
proof (cases rule: directionKeys_cases)
qed (simp_all add: destination_def)

lemma getCell_other:
  "c' \<noteq> c \<Longrightarrow> getCell (sh\<lparr>data := (data sh)(c \<mapsto> v)\<rparr>) c' = getCell sh c'"
  by (simp add: getCell_def)

text \<open>
  C4. A directional key (Enter, Tab or an arrow) pressed in the input of the cell being
  edited at (row, col) first commits the draft to that cell.  When the destination (one row
  down for Enter and ArrowDown, one column right for Tab and ArrowRight, one row up for
  ArrowUp, one column left for ArrowLeft) lies in the grid, the destination becomes the
  selected and editing cell and the draft becomes its stored value; otherwise the selection
  stays on the current cell, which is no longer being edited.
\<close>

theorem directional_move:
  assumes "inGrid row col"
    and "selectedCell s = Some (getCellId row col)" and "editingCell s = Some (getCellId row col)"
    and "activeSheetId s \<in> set (map sheet_id (sheets s))"
    and "key \<in> set directionKeys"
    and "destination key row col = (r, c)"
  shows "\<exists>s' sh. step s (KeyDown key row col) = Some s'
          \<and> activeSheet s' = Some sh \<and> getCell sh (getCellId row col) = cellValue s
          \<and> (inGrid r c \<longrightarrow>
                selectedCell s' = Some (getCellId r c) \<and> editingCell s' = Some (getCellId r c)
                \<and> cellValue s' = getCell sh (getCellId r c))
          \<and> (\<not> inGrid r c \<longrightarrow>
                selectedCell s' = Some (getCellId row col) \<and> editingCell s' = None)"
proof -
  let ?cur = "getCellId row col"
  have ne: "?cur \<noteq> []" by (rule getCellId_nonempty [OF assms(1)])
  define b where "b = handleCellBlur s s"
  have beq: "b = s\<lparr>sheets := setCell (sheets s) (activeSheetId s) ?cur (cellValue s), editingCell := None\<rparr>"
    unfolding b_def by (rule handleCellBlur_editing [OF assms(2,3) ne])
  have bf: "sheets b = setCell (sheets s) (activeSheetId s) ?cur (cellValue s)"
    "activeSheetId b = activeSheetId s" "selectedCell b = Some ?cur" "editingCell b = None"
    by (simp_all add: beq assms(2))
  from find_present [OF assms(4)] obtain old where
    old: "find (\<lambda>sh. sheet_id sh = activeSheetId s) (sheets s) = Some old" by blast
  then have aold: "activeSheet s = Some old" by (simp add: activeSheet_def)
  define sh where "sh = old\<lparr>data := (data old)(?cur \<mapsto> cellValue s)\<rparr>"
  have ab: "activeSheet b = Some sh"
    by (simp add: activeSheet_def bf find_setCell old sh_def)
  have committed: "getCell sh ?cur = cellValue s"
    by (simp add: sh_def getCell_def)
  have kd: "handleKeyDown s key row col =
      (if inGrid r c then handleCellClick s b r c else Some b)"
    using handleKeyDown_move [OF assms(5,1), of s] by (simp add: assms(6) b_def)
  show ?thesis
  proof (cases "inGrid r c")
    case True
    have "(r, c) \<noteq> (row, col)"
      using destination_moves [OF assms(5), of row col] by (simp add: assms(6))
    with getCellId_inj [OF True assms(1)] have diff: "getCellId r c \<noteq> ?cur" by auto
    define s' where "s' = b\<lparr>selectedCell := Some (getCellId r c), editingCell := Some (getCellId r c),
                              cellValue := getCell old (getCellId r c)\<rparr>"
    have hk: "handleKeyDown s key row col = Some s'"
      by (simp add: kd True handleCellClick_def getCellValue_def aold s'_def)
    have sf: "sheets s' = sheets b" "activeSheetId s' = activeSheetId s"
      "selectedCell s' = Some (getCellId r c)" "editingCell s' = Some (getCellId r c)"
      "cellValue s' = getCell old (getCellId r c)"
      by (simp_all add: s'_def bf)
    have "handler s (KeyDown key row col) = Some s'" by (simp add: hk)
    then have st: "step s (KeyDown key row col) = Some s'"
      using sf(2) by (rule step_same_active)
    have as': "activeSheet s' = Some sh"
      using ab activeSheet_cong [of s' b] by (simp add: sf bf)
    have "cellValue s' = getCell sh (getCellId r c)"
      using diff by (simp add: sf(5) sh_def getCell_other)
    with st as' committed sf(3,4) True show ?thesis
      by (intro exI [of _ s'] exI [of _ sh]) simp
  next
    case False
    have hk: "handleKeyDown s key row col = Some b"
      by (simp add: kd False)
    then have "handler s (KeyDown key row col) = Some b" by simp
    then have st: "step s (KeyDown key row col) = Some b"
      using bf(2) by (rule step_same_active)
    with ab committed bf(3,4) False show ?thesis
      by (intro exI [of _ b] exI [of _ sh]) simp
  qed
qed

lemma editing_corner_fields:
  "selectedCell editingA1 = Some ''A1''" "editingCell editingA1 = Some ''A1''"
  "cellValue editingA1 = ''x''" "activeSheetId editingA1 \<in> set (map sheet_id (sheets editingA1))"
  "selectedCell editingZ50 = Some ''Z50''" "editingCell editingZ50 = Some ''Z50''"
  "cellValue editingZ50 = ''y''" "activeSheetId editingZ50 \<in> set (map sheet_id (sheets editingZ50))"
  by (simp_all add: editingA1_def editingZ50_def initialState_def)

theorem directional_move_witness:
  "inGrid 0 0 \<and> inGrid 49 25 \<and> getCellId 0 0 = ''A1'' \<and> getCellId 49 25 = ''Z50''
   \<and> selectedCell editingA1 = Some ''A1'' \<and> editingCell editingA1 = Some ''A1''
   \<and> activeSheetId editingA1 \<in> set (map sheet_id (sheets editingA1))
   \<and> selectedCell editingZ50 = Some ''Z50'' \<and> editingCell editingZ50 = Some ''Z50''
   \<and> activeSheetId editingZ50 \<in> set (map sheet_id (sheets editingZ50))
   \<and> (\<exists>s' sh. step editingA1 (KeyDown ''ArrowUp'' 0 0) = Some s' \<and> activeSheet s' = Some sh
          \<and> getCell sh ''A1'' = ''x'' \<and> selectedCell s' = Some ''A1'' \<and> editingCell s' = None)
   \<and> (\<exists>s' sh. step editingA1 (KeyDown ''ArrowLeft'' 0 0) = Some s' \<and> activeSheet s' = Some sh
          \<and> getCell sh ''A1'' = ''x'' \<and> selectedCell s' = Some ''A1'' \<and> editingCell s' = None)
   \<and> (\<exists>s' sh. step editingZ50 (KeyDown ''ArrowDown'' 49 25) = Some s' \<and> activeSheet s' = Some sh
          \<and> getCell sh ''Z50'' = ''y'' \<and> selectedCell s' = Some ''Z50'' \<and> editingCell s' = None)
   \<and> (\<exists>s' sh. step editingZ50 (KeyDown ''ArrowRight'' 49 25) = Some s' \<and> activeSheet s' = Some sh
          \<and> getCell sh ''Z50'' = ''y'' \<and> selectedCell s' = Some ''Z50'' \<and> editingCell s' = None)
   \<and> (\<exists>s' sh. step editingA1 (KeyDown ''Enter'' 0 0) = Some s' \<and> activeSheet s' = Some sh
          \<and> getCell sh ''A1'' = ''x'' \<and> selectedCell s' = Some ''A2'' \<and> editingCell s' = Some ''A2''
          \<and> cellValue s' = getCell sh ''A2'')"
proof -
  note g = getCellId_corners and e = editing_corner_fields
  have grid: "inGrid 0 0" "inGrid 49 25" "inGrid 1 0" "\<not> inGrid (- 1) 0" "\<not> inGrid 0 (- 1)"
    "\<not> inGrid 50 25" "\<not> inGrid 49 26"
    by (simp_all add: inGrid_def ROWS_def length_COLUMNS)
  have keys: "''ArrowUp'' \<in> set directionKeys" "''ArrowLeft'' \<in> set directionKeys"
    "''ArrowDown'' \<in> set directionKeys" "''ArrowRight'' \<in> set directionKeys"
    "''Enter'' \<in> set directionKeys"
    by (simp_all add: directionKeys_def)
  have dest: "destination ''ArrowUp'' 0 0 = (- 1, 0)" "destination ''ArrowLeft'' 0 0 = (0, - 1)"
    "destination ''ArrowDown'' 49 25 = (50, 25)" "destination ''ArrowRight'' 49 25 = (49, 26)"
    "destination ''Enter'' 0 0 = (1, 0)"
    by (simp_all add: destination_def)
  have a: "selectedCell editingA1 = Some (getCellId 0 0)" "editingCell editingA1 = Some (getCellId 0 0)"
    and z: "selectedCell editingZ50 = Some (getCellId 49 25)" "editingCell editingZ50 = Some (getCellId 49 25)"
    by (simp_all add: g e)
  from directional_move [OF grid(1) a e(4) keys(1) dest(1)] grid(4)
  have up: "\<exists>s' sh. step editingA1 (KeyDown ''ArrowUp'' 0 0) = Some s' \<and> activeSheet s' = Some sh
          \<and> getCell sh ''A1'' = ''x'' \<and> selectedCell s' = Some ''A1'' \<and> editingCell s' = None"
    by (simp add: g e(3))
  from directional_move [OF grid(1) a e(4) keys(2) dest(2)] grid(5)
  have left: "\<exists>s' sh. step editingA1 (KeyDown ''ArrowLeft'' 0 0) = Some s' \<and> activeSheet s' = Some sh
          \<and> getCell sh ''A1'' = ''x'' \<and> selectedCell s' = Some ''A1'' \<and> editingCell s' = None"
    by (simp add: g e(3))
  from directional_move [OF grid(2) z e(8) keys(3) dest(3)] grid(6)
  have down: "\<exists>s' sh. step editingZ50 (KeyDown ''ArrowDown'' 49 25) = Some s' \<and> activeSheet s' = Some sh
          \<and> getCell sh ''Z50'' = ''y'' \<and> selectedCell s' = Some ''Z50'' \<and> editingCell s' = None"
    by (simp add: g e(7))
  from directional_move [OF grid(2) z e(8) keys(4) dest(4)] grid(7)
  have right: "\<exists>s' sh. step editingZ50 (KeyDown ''ArrowRight'' 49 25) = Some s' \<and> activeSheet s' = Some sh
          \<and> getCell sh ''Z50'' = ''y'' \<and> selectedCell s' = Some ''Z50'' \<and> editingCell s' = None"
    by (simp add: g e(7))
  from directional_move [OF grid(1) a e(4) keys(5) dest(5)] grid(3)
  have enter: "\<exists>s' sh. step editingA1 (KeyDown ''Enter'' 0 0) = Some s' \<and> activeSheet s' = Some sh
          \<and> getCell sh ''A1'' = ''x'' \<and> selectedCell s' = Some ''A2'' \<and> editingCell s' = Some ''A2''
          \<and> cellValue s' = getCell sh ''A2''"
    by (simp add: g e(3))
  from grid(1,2) g(1,2) e(1,2,4,5,6,8) up left down right enter show ?thesis
    by (intro conjI)
qed

section \<open>Resizing keeps every stored size above the minimum\<close>

lemma handleKeyDown_forms:
  "handleKeyDown s key row col = Some s
   \<or> handleKeyDown s key row col = Some (handleCellBlur s s)
   \<or> (\<exists>r c. handleKeyDown s key row col = handleCellClick s (handleCellBlur s s) r c)"
proof (cases "key \<in> set directionKeys")
  case True
  from handleKeyDown_direction [OF True, of s row col] show ?thesis
    by (elim disjE) (rule disjI2, rule disjI1, assumption, rule disjI2, rule disjI2, assumption)
next
  case False
  then have "handleKeyDown s key row col = Some s"
    by (simp add: handleKeyDown_def directionKeys_def)
  then show ?thesis by (rule disjI1)
qed

lemma newSize_floor: "minimumSize type \<le> newSize type startSize startPos currentPos"
  by (simp add: newSize_def minimumSize_def)

lemma storedSize_setCell_sheet:
  "storedSize (sh\<lparr>data := d\<rparr>) type k = storedSize sh type k"
  by (simp add: storedSize_def)

lemma sizesAbove_setCell: "sizesAbove shs \<Longrightarrow> sizesAbove (setCell shs a c v)"
  by (auto simp: sizesAbove_def setCell_def storedSize_setCell_sheet)

lemma sizesAbove_rename:
  "sizesAbove shs \<Longrightarrow>
   sizesAbove (map (\<lambda>sheet. if sheet_id sheet = a then sheet\<lparr>name := n\<rparr> else sheet) shs)"
  by (auto simp: sizesAbove_def storedSize_def)

lemma sizesAbove_filter: "sizesAbove shs \<Longrightarrow> sizesAbove (filter P shs)"
  by (auto simp: sizesAbove_def)

lemma sizesAbove_new:
  "sizesAbove shs \<Longrightarrow>
   sizesAbove (shs @ [\<lparr>sheet_id = i, name = n, data = d, columnWidths = Some Map.empty,
                       rowHeights = Some Map.empty\<rparr>])"
  by (auto simp: sizesAbove_def storedSize_def lookupOpt_def)

lemma storedSize_update_column:
  "storedSize (sh\<lparr>columnWidths := Some ((spread (columnWidths sh))(k \<mapsto> w))\<rparr>) type k' =
   (if type = Column \<and> k' = k then Some w else storedSize sh type k')"
  by (cases "columnWidths sh") (auto simp: storedSize_def lookupOpt_def spread_def)

lemma storedSize_update_row:
  "storedSize (sh\<lparr>rowHeights := Some ((spread (rowHeights sh))(k \<mapsto> w))\<rparr>) type k' =
   (if type = Row \<and> k' = k then Some w else storedSize sh type k')"
  by (cases "rowHeights sh"; cases type) (auto simp: storedSize_def lookupOpt_def spread_def)

lemma sizesAbove_update_column:
  "sizesAbove shs \<Longrightarrow> minimumSize Column \<le> w \<Longrightarrow>
   sizesAbove (updateSheetDimensions a (Some [k \<mapsto> w]) None shs)"
  unfolding sizesAbove_def updateSheetDimensions_def
  by (auto simp: storedSize_update_column split: if_splits)

lemma sizesAbove_update_row:
  "sizesAbove shs \<Longrightarrow> minimumSize Row \<le> w \<Longrightarrow>
   sizesAbove (updateSheetDimensions a None (Some [k \<mapsto> w]) shs)"
  unfolding sizesAbove_def updateSheetDimensions_def
  by (auto simp: storedSize_update_row split: if_splits)

lemma sheets_handleCellBlur:
  "sheets (handleCellBlur snap pend) = sheets pend
   \<or> (\<exists>a c v. sheets (handleCellBlur snap pend) = setCell (sheets pend) a c v)"
  by (cases "pendingEdit snap") (auto simp: handleCellBlur_def)

lemma sizesAbove_handleCellBlur:
  "sizesAbove (sheets pend) \<Longrightarrow> sizesAbove (sheets (handleCellBlur snap pend))"
  using sheets_handleCellBlur [of snap pend] by (auto simp: sizesAbove_setCell)

lemma sheets_handleCellClick:
  "handleCellClick snap pend r c = Some s' \<Longrightarrow> sheets s' = sheets pend"
  by (auto simp: handleCellClick_def split: option.splits)

lemma sizesAbove_handleKeyDown:
  assumes "handleKeyDown s key row col = Some s'" and "sizesAbove (sheets s)"
  shows "sizesAbove (sheets s')"
proof -
  have b: "sizesAbove (sheets (handleCellBlur s s))"
    by (rule sizesAbove_handleCellBlur [OF assms(2)])
  from handleKeyDown_forms [of s key row col] show ?thesis
  proof (elim disjE exE)
    assume "handleKeyDown s key row col = Some s"
    with assms show ?thesis by simp
  next
    assume "handleKeyDown s key row col = Some (handleCellBlur s s)"
    with assms(1) b show ?thesis by simp
  next
    fix r c
    assume "handleKeyDown s key row col = handleCellClick s (handleCellBlur s s) r c"
    with assms(1) have "sheets s' = sheets (handleCellBlur s s)"
      by (simp add: sheets_handleCellClick)
    with b show ?thesis by simp
  qed
qed

lemma sizesAbove_formulaBarChange:
  "sizesAbove (sheets s) \<Longrightarrow> sizesAbove (sheets (formulaBarChange s v))"
  by (cases "selectedCell s") (auto simp: formulaBarChange_def sizesAbove_setCell)

lemma sizesAbove_sheetTabClick:
  "sizesAbove (sheets s) \<Longrightarrow> sizesAbove (sheets (sheetTabClick s target))"
  by (cases "pendingEdit s") (auto simp: sheetTabClick_def sizesAbove_setCell)

lemma sizesAbove_addNewSheet:
  "sizesAbove (sheets s) \<Longrightarrow> sizesAbove (sheets (addNewSheet s now))"
  by (simp add: addNewSheet_def Let_def sizesAbove_new)

lemma sizesAbove_deleteSheet:
  "deleteSheet s sid = Some s' \<Longrightarrow> sizesAbove (sheets s) \<Longrightarrow> sizesAbove (sheets s')"
  by (auto simp: deleteSheet_def Let_def sizesAbove_filter split: if_splits list.splits
      dest: sizesAbove_filter [where P = "\<lambda>sh. sheet_id sh \<noteq> sid"])

lemma sizesAbove_renameSheet:
  "sizesAbove (sheets s) \<Longrightarrow> sizesAbove (sheets (renameSheet s sid n))"
  by (simp add: renameSheet_def sizesAbove_rename)

lemma sheets_handleResizeStart:
  "handleResizeStart s type index x y = Some s' \<Longrightarrow> sheets s' = sheets s"
  by (auto simp: handleResizeStart_def split: option.splits)

lemma handleMouseMove_dragging:
  assumes "isResizing s" and "resizingType s = Some type" and "resizingIndex s = Some index"
  shows "handleMouseMove s x y =
     s\<lparr>sheets :=
         (if type = Column
          then updateSheetDimensions (activeSheetId s)
                 (Some [propertyKey index \<mapsto>
                    newSize type (resizeStartSize s) (resizeStartPos s) x]) None (sheets s)
          else updateSheetDimensions (activeSheetId s) None
                 (Some [propertyKey index \<mapsto>
                    newSize type (resizeStartSize s) (resizeStartPos s) y]) (sheets s))\<rparr>"
  using assms by (simp add: handleMouseMove_def Let_def)

lemma handleMouseMove_idle:
  assumes "\<not> (isResizing s \<and> resizingType s \<noteq> None \<and> resizingIndex s \<noteq> None)"
  shows "handleMouseMove s x y = s"
  using assms by (auto simp: handleMouseMove_def split: bool.splits option.splits)

lemma sizesAbove_handleMouseMove:
  assumes "sizesAbove (sheets s)"
  shows "sizesAbove (sheets (handleMouseMove s x y))"
proof (cases "isResizing s \<and> resizingType s \<noteq> None \<and> resizingIndex s \<noteq> None")
  case True
  then obtain type index where d: "isResizing s" "resizingType s = Some type" "resizingIndex s = Some index"
    by auto
  show ?thesis
  proof (cases type)
    case Column
    then show ?thesis
      using sizesAbove_update_column [OF assms newSize_floor [of Column]]
      by (simp add: handleMouseMove_dragging [OF d])
  next
    case Row
    then show ?thesis
      using sizesAbove_update_row [OF assms newSize_floor [of Row]]
      by (simp add: handleMouseMove_dragging [OF d])
  qed
next
  case False
  with assms show ?thesis by (simp add: handleMouseMove_idle)
qed

lemma sizesAbove_handler:
  assumes "handler s e = Some s'" and "sizesAbove (sheets s)"
  shows "sizesAbove (sheets s')"
proof (cases e)
  case (CellClick row col)
  with assms show ?thesis by (simp add: sheets_handleCellClick)
next
  case (CellChange v)
  with assms show ?thesis by (auto simp: handleCellChange_def)
next
  case CellBlur
  with assms show ?thesis by (auto simp: sizesAbove_handleCellBlur)
next
  case (KeyDown key row col)
  with assms show ?thesis by (simp add: sizesAbove_handleKeyDown)
next
  case (FormulaBarChange v)
  with assms show ?thesis by (auto simp: sizesAbove_formulaBarChange)
next
  case (AddNewSheet now)
  with assms show ?thesis by (auto simp: sizesAbove_addNewSheet)
next
  case (DeleteSheet sid)
  with assms show ?thesis by (simp add: sizesAbove_deleteSheet)
next
  case (RenameSheet sid n)
  with assms show ?thesis by (auto simp: sizesAbove_renameSheet)
next
  case (SheetTabClick target)
  with assms show ?thesis by (auto simp: sizesAbove_sheetTabClick)
next
  case (ResizeStart type index x y)
  with assms show ?thesis by (simp add: sheets_handleResizeStart)
next
  case (MouseMove x y)
  with assms show ?thesis by (auto simp: sizesAbove_handleMouseMove)
next
  case MouseUp
  with assms show ?thesis by (auto simp: handleMouseUp_def)
qed

lemma sheets_clearSelectionEffect: "sheets (clearSelectionEffect s s') = sheets s'"
  by (simp add: clearSelectionEffect_def)

lemma sizesAbove_step:
  assumes "step s e = Some s'" and "sizesAbove (sheets s)"
  shows "sizesAbove (sheets s')"
proof -
  from assms(1) obtain h where h: "handler s e = Some h" "s' = clearSelectionEffect s h"
    by (auto simp: step_def)
  from sizesAbove_handler [OF h(1) assms(2)] show ?thesis
    by (simp add: h(2) sheets_clearSelectionEffect)
qed

lemma sizesAbove_run:
  "run s evs = Some s' \<Longrightarrow> sizesAbove (sheets s) \<Longrightarrow> sizesAbove (sheets s')"
proof (induction evs arbitrary: s)
  case Nil
  then show ?case by simp
next
  case (Cons e es)
  from Cons.prems(1) obtain s1 where s1: "step s e = Some s1" "run s1 es = Some s'"
    by (auto split: option.splits)
  from sizesAbove_step [OF s1(1) Cons.prems(2)] Cons.IH [OF s1(2)] show ?case by simp
qed

lemma sizesAbove_initial: "sizesAbove (sheets initialState)"
  by (simp add: sizesAbove_def initialState_def storedSize_def lookupOpt_def)

lemma find_updateSheetDimensions:
  "find (\<lambda>sh. sheet_id sh = a) (updateSheetDimensions a cw rh shs) =
     map_option
       (\<lambda>sheet. sheet\<lparr>columnWidths :=
                         (case cw of Some c \<Rightarrow> Some (spread (columnWidths sheet) ++ c)
                                   | None \<Rightarrow> columnWidths sheet),
                       rowHeights :=
                         (case rh of Some r \<Rightarrow> Some (spread (rowHeights sheet) ++ r)
                                   | None \<Rightarrow> rowHeights sheet)\<rparr>)
       (find (\<lambda>sh. sheet_id sh = a) shs)"
  by (induction shs) (simp_all add: updateSheetDimensions_def)

lemma updateSheetDimensions_ids: "map sheet_id (updateSheetDimensions a cw rh shs) = map sheet_id shs"
  by (simp add: updateSheetDimensions_def)

lemma step_MouseMove: "step s (MouseMove x y) = Some (handleMouseMove s x y)"
proof (cases "isResizing s \<and> resizingType s \<noteq> None \<and> resizingIndex s \<noteq> None")
  case True
  then obtain type index where d: "isResizing s" "resizingType s = Some type" "resizingIndex s = Some index"
    by auto
  show ?thesis
    by (simp add: step_def clearSelectionEffect_def handleMouseMove_dragging [OF d])
next
  case False
  then show ?thesis
    by (simp add: step_def clearSelectionEffect_def handleMouseMove_idle)
qed

lemma move_stores:
  assumes "isResizing s" and "resizingType s = Some type" and "resizingIndex s = Some index"
    and "activeSheetId s \<in> set (map sheet_id (sheets s))"
  shows "\<exists>s' sh. step s (MouseMove clientX clientY) = Some s' \<and> activeSheet s' = Some sh
          \<and> storedSize sh type (propertyKey index) =
                Some (newSize type (resizeStartSize s) (resizeStartPos s)
                        (if type = Column then clientX else clientY))"
proof -
  define s' where "s' = handleMouseMove s clientX clientY"
  from find_present [OF assms(4)] obtain old where
    old: "find (\<lambda>sh. sheet_id sh = activeSheetId s) (sheets s) = Some old" by blast
  have st: "step s (MouseMove clientX clientY) = Some s'"
    by (simp add: step_MouseMove s'_def)
  show ?thesis
  proof (cases type)
    case Column
    define sh where "sh = old\<lparr>columnWidths := Some ((spread (columnWidths old))
        (propertyKey index \<mapsto> newSize type (resizeStartSize s) (resizeStartPos s) clientX))\<rparr>"
    have "activeSheet s' = Some sh"
      unfolding s'_def handleMouseMove_dragging [OF assms(1-3)]
      by (simp add: activeSheet_def Column find_updateSheetDimensions old sh_def)
    moreover have "storedSize sh type (propertyKey index) =
        Some (newSize type (resizeStartSize s) (resizeStartPos s) clientX)"
      by (simp add: sh_def storedSize_update_column Column)
    ultimately show ?thesis
      using st Column by (intro exI [of _ s'] exI [of _ sh]) simp
  next
    case Row
    define sh where "sh = old\<lparr>rowHeights := Some ((spread (rowHeights old))
        (propertyKey index \<mapsto> newSize type (resizeStartSize s) (resizeStartPos s) clientY))\<rparr>"
    have "activeSheet s' = Some sh"
      unfolding s'_def handleMouseMove_dragging [OF assms(1-3)]
      by (simp add: activeSheet_def Row find_updateSheetDimensions old sh_def)
    moreover have "storedSize sh type (propertyKey index) =
        Some (newSize type (resizeStartSize s) (resizeStartPos s) clientY)"
      by (simp add: sh_def storedSize_update_row Row)
    ultimately show ?thesis
      using st Row by (intro exI [of _ s'] exI [of _ sh]) simp
  qed
qed

lemma newSize_max:
  "newSize type startSize startPos currentPos =
     max (minimumSize type) (startSize + (currentPos - startPos))"
  by (simp add: newSize_def minimumSize_def)

lemma sizesAbove_explicit:
  assumes "sizesAbove shs" and "sh \<in> set shs"
  shows "(lookupOpt (columnWidths sh) k = Some w \<longrightarrow> 20 \<le> w)
       \<and> (lookupOpt (rowHeights sh) k = Some w \<longrightarrow> 15 \<le> w)"
proof -
  from assms have "\<And>type. storedSize sh type k = Some w \<Longrightarrow> minimumSize type \<le> w"
    by (auto simp: sizesAbove_def)
  from this [of Column] this [of Row] show ?thesis
    by (simp add: storedSize_def minimumSize_def MIN_COLUMN_WIDTH_def MIN_ROW_HEIGHT_def)
qed

text \<open>
  C5 (as amended). While a drag is in progress, a pointer move stores, under the dragged
  key of the active sheet, the size max(minimum, startSize + (coordinate - startCoordinate)),
  the coordinate being the horizontal one for a column and the vertical one for a row and
  the minimum 20 for a column and 15 for a row.  A request at or below the minimum stores
  exactly the minimum; every size from the minimum upwards is stored for some coordinate,
  so there is no maximum; and in every state reached from the initial one each stored column
  width is at least 20 and each stored row height at least 15.
\<close>

theorem resize_floor:
  assumes "isResizing s" and "resizingType s = Some type" and "resizingIndex s = Some index"
    and "activeSheetId s \<in> set (map sheet_id (sheets s))"
  shows "(\<exists>s' sh. step s (MouseMove clientX clientY) = Some s' \<and> activeSheet s' = Some sh
            \<and> storedSize sh type (propertyKey index) =
                Some (max (minimumSize type)
                   (resizeStartSize s + ((if type = Column then clientX else clientY) - resizeStartPos s)))
            \<and> (resizeStartSize s + ((if type = Column then clientX else clientY) - resizeStartPos s)
                  \<le> minimumSize type \<longrightarrow>
                storedSize sh type (propertyKey index) = Some (minimumSize type)))
       \<and> (minimumSize type \<le> n \<longrightarrow>
            (\<exists>x y s' sh. step s (MouseMove x y) = Some s' \<and> activeSheet s' = Some sh
               \<and> storedSize sh type (propertyKey index) = Some n))
       \<and> minimumSize Column = 20 \<and> minimumSize Row = 15
       \<and> (run initialState evs = Some t \<longrightarrow>
            (\<forall>sh \<in> set (sheets t). \<forall>k w.
               (lookupOpt (columnWidths sh) k = Some w \<longrightarrow> 20 \<le> w)
             \<and> (lookupOpt (rowHeights sh) k = Some w \<longrightarrow> 15 \<le> w)))"
proof (intro conjI impI)
  from move_stores [OF assms, of clientX clientY] obtain s' sh where
    m: "step s (MouseMove clientX clientY) = Some s'" "activeSheet s' = Some sh"
       "storedSize sh type (propertyKey index) =
          Some (max (minimumSize type)
             (resizeStartSize s + ((if type = Column then clientX else clientY) - resizeStartPos s)))"
    unfolding newSize_max by blast
  show "\<exists>s' sh. step s (MouseMove clientX clientY) = Some s' \<and> activeSheet s' = Some sh
            \<and> storedSize sh type (propertyKey index) =
                Some (max (minimumSize type)
                   (resizeStartSize s + ((if type = Column then clientX else clientY) - resizeStartPos s)))
            \<and> (resizeStartSize s + ((if type = Column then clientX else clientY) - resizeStartPos s)
                  \<le> minimumSize type \<longrightarrow>
                storedSize sh type (propertyKey index) = Some (minimumSize type))"
    using m by (intro exI [of _ s'] exI [of _ sh]) simp
next
  assume n: "minimumSize type \<le> n"
  define p where "p = resizeStartPos s + (n - resizeStartSize s)"
  from move_stores [OF assms, of p p] obtain s' sh where
    m: "step s (MouseMove p p) = Some s'" "activeSheet s' = Some sh"
       "storedSize sh type (propertyKey index) =
          Some (max (minimumSize type) (resizeStartSize s + (p - resizeStartPos s)))"
    unfolding newSize_max by auto
  have "max (minimumSize type) (resizeStartSize s + (p - resizeStartPos s)) = n"
    using n by (simp add: p_def)
  with m show "\<exists>x y s' sh. step s (MouseMove x y) = Some s' \<and> activeSheet s' = Some sh
               \<and> storedSize sh type (propertyKey index) = Some n"
    by (intro exI [of _ p] exI [of _ s'] exI [of _ sh]) simp
next
  show "minimumSize Column = 20" "minimumSize Row = 15"
    by (simp_all add: minimumSize_def MIN_COLUMN_WIDTH_def MIN_ROW_HEIGHT_def)
next
  assume "run initialState evs = Some t"
  from sizesAbove_run [OF this sizesAbove_initial] have "sizesAbove (sheets t)" .
  then show "\<forall>sh \<in> set (sheets t). \<forall>k w.
               (lookupOpt (columnWidths sh) k = Some w \<longrightarrow> 20 \<le> w)
             \<and> (lookupOpt (rowHeights sh) k = Some w \<longrightarrow> 15 \<le> w)"
    using sizesAbove_explicit by blast
qed

lemma run_to_draggingColumnA:
  "run initialState [ResizeStart Column (Str ''A'') 100 0] = Some draggingColumnA"
  by (simp add: step_def clearSelectionEffect_def handleResizeStart_def getColumnWidth_def
      activeSheet_def orDefault_def lookupOpt_def DEFAULT_COLUMN_WIDTH_def initialState_def
      draggingColumnA_def)

lemma draggingColumnA_fields:
  "isResizing draggingColumnA" "resizingType draggingColumnA = Some Column"
  "resizingIndex draggingColumnA = Some (Str ''A'')"
  "activeSheetId draggingColumnA \<in> set (map sheet_id (sheets draggingColumnA))"
  "resizeStartSize draggingColumnA = 96" "resizeStartPos draggingColumnA = 100"
  by (simp_all add: draggingColumnA_def initialState_def)

lemma draggingColumnA_move:
  "storedSize (sheets (handleMouseMove draggingColumnA x y) ! 0) Column ''A'' = Some (max 20 (x - 4))"
  "length (sheets (handleMouseMove draggingColumnA x y)) = 1"
  unfolding handleMouseMove_dragging [OF draggingColumnA_fields(1-3)]
  by (simp_all add: updateSheetDimensions_def draggingColumnA_def initialState_def storedSize_def
      lookupOpt_def spread_def propertyKey_def newSize_def MIN_COLUMN_WIDTH_def)

text \<open>
  C5 as stated fails where it says that a request of startSize - 50 stores the minimum: a
  column at the default width 96 dragged 50 to the left stores 46.
\<close>

theorem resize_request_counterexample:
  "run initialState [ResizeStart Column (Str ''A'') 100 0] = Some draggingColumnA
   \<and> resizeStartSize draggingColumnA + (50 - resizeStartPos draggingColumnA)
       = resizeStartSize draggingColumnA - 50
   \<and> step draggingColumnA (MouseMove 50 0) = Some (handleMouseMove draggingColumnA 50 0)
   \<and> storedSize (sheets (handleMouseMove draggingColumnA 50 0) ! 0) Column ''A'' = Some 46
   \<and> (46::int) \<noteq> MIN_COLUMN_WIDTH"
proof (intro conjI)
  show "run initialState [ResizeStart Column (Str ''A'') 100 0] = Some draggingColumnA"
    by (rule run_to_draggingColumnA)
  show "step draggingColumnA (MouseMove 50 0) = Some (handleMouseMove draggingColumnA 50 0)"
    by (rule step_MouseMove)
  show "storedSize (sheets (handleMouseMove draggingColumnA 50 0) ! 0) Column ''A'' = Some 46"
    by (simp add: draggingColumnA_move)
qed (simp_all add: draggingColumnA_fields MIN_COLUMN_WIDTH_def)

theorem resize_floor_witness:
  "isResizing draggingColumnA \<and> resizingType draggingColumnA = Some Column
   \<and> resizingIndex draggingColumnA = Some (Str ''A'')
   \<and> activeSheetId draggingColumnA \<in> set (map sheet_id (sheets draggingColumnA))
   \<and> resizeStartSize draggingColumnA + ((if Column = Column then 10 else 0) - resizeStartPos draggingColumnA)
       \<le> minimumSize Column
   \<and> minimumSize Column \<le> 500
   \<and> run initialState [ResizeStart Column (Str ''A'') 100 0, MouseMove 10 0]
       = Some (handleMouseMove draggingColumnA 10 0)
   \<and> (\<exists>s' sh. step draggingColumnA (MouseMove 10 0) = Some s' \<and> activeSheet s' = Some sh
          \<and> storedSize sh Column ''A'' = Some 20)
   \<and> (\<exists>x y s' sh. step draggingColumnA (MouseMove x y) = Some s' \<and> activeSheet s' = Some sh
          \<and> storedSize sh Column ''A'' = Some 500)
   \<and> lookupOpt (columnWidths (sheets (handleMouseMove draggingColumnA 10 0) ! 0)) ''A'' = Some 20
   \<and> (20::int) \<le> 20"
proof -
  note d = draggingColumnA_fields
  let ?t = "handleMouseMove draggingColumnA 10 0"
  have req: "resizeStartSize draggingColumnA + ((if Column = Column then 10 else 0)
      - resizeStartPos draggingColumnA) \<le> minimumSize Column"
    by (simp add: d minimumSize_def MIN_COLUMN_WIDTH_def)
  have big: "minimumSize Column \<le> 500"
    by (simp add: minimumSize_def MIN_COLUMN_WIDTH_def)
  have r: "run initialState [ResizeStart Column (Str ''A'') 100 0, MouseMove 10 0] = Some ?t"
    using run_to_draggingColumnA by (auto simp: step_MouseMove split: option.splits)
  have stored: "lookupOpt (columnWidths (sheets ?t ! 0)) ''A'' = Some 20"
    using draggingColumnA_move(1) [of 10 0] by (simp add: storedSize_def)
  have mem: "sheets ?t ! 0 \<in> set (sheets ?t)"
    by (rule nth_mem) (simp add: draggingColumnA_move(2))
  note t = resize_floor [OF d(1-4), of 10 0 500 "[ResizeStart Column (Str ''A'') 100 0, MouseMove 10 0]" ?t]
  from t req have a: "\<exists>s' sh. step draggingColumnA (MouseMove 10 0) = Some s' \<and> activeSheet s' = Some sh
          \<and> storedSize sh Column ''A'' = Some 20"
    by (simp add: propertyKey_def minimumSize_def MIN_COLUMN_WIDTH_def)
  from t big have b: "\<exists>x y s' sh. step draggingColumnA (MouseMove x y) = Some s' \<and> activeSheet s' = Some sh
          \<and> storedSize sh Column ''A'' = Some 500"
    by (simp add: propertyKey_def)
  from t r have "\<forall>sh \<in> set (sheets ?t). \<forall>k w.
               (lookupOpt (columnWidths sh) k = Some w \<longrightarrow> 20 \<le> w)
             \<and> (lookupOpt (rowHeights sh) k = Some w \<longrightarrow> 15 \<le> w)"
    by (elim conjE) (erule mp)
  with mem stored have c: "(20::int) \<le> 20"
    by blast
  from d(1-4) req big r a b stored c show ?thesis
    by (intro conjI)
qed

section \<open>Sheet ids\<close>

lemma digits_inj: "digits m = digits n \<Longrightarrow> m = n"
  by (metis radixValue_digits)

lemma digits_no_minus: "digits n \<noteq> CHR ''-'' # r"
proof
  assume e: "digits n = CHR ''-'' # r"
  then have "CHR ''-'' \<in> set (digits n)" by simp
  from digits_not_special(3) [OF this] show False by simp
qed

lemma toString_inj: "toString a = toString b \<Longrightarrow> a = b"
proof -
  assume e: "toString a = toString b"
  show ?thesis
  proof (cases "a < 0"; cases "b < 0")
    assume "a < 0" "b < 0"
    with e have "digits (nat (- a)) = digits (nat (- b))" by (simp add: toString_def)
    from digits_inj [OF this] \<open>a < 0\<close> \<open>b < 0\<close> show ?thesis by simp
  next
    assume "a < 0" "\<not> b < 0"
    with e digits_no_minus [of "nat b" "digits (nat (- a))"] show ?thesis
      by (simp add: toString_def)
  next
    assume "\<not> a < 0" "b < 0"
    with e digits_no_minus [of "nat a" "digits (nat (- b))"] show ?thesis
      by (simp add: toString_def)
  next
    assume "\<not> a < 0" "\<not> b < 0"
    with e have "digits (nat a) = digits (nat b)" by (simp add: toString_def)
    from digits_inj [OF this] \<open>\<not> a < 0\<close> \<open>\<not> b < 0\<close> show ?thesis by simp
  qed
qed

lemma toString_1: "toString 1 = ''1''"
  by code_simp

lemma ids_handleCellBlur: "map sheet_id (sheets (handleCellBlur snap pend)) = map sheet_id (sheets pend)"
  using sheets_handleCellBlur [of snap pend] by (auto simp: setCell_ids)

lemma ids_handleKeyDown:
  assumes "handleKeyDown s key row col = Some s'"
  shows "map sheet_id (sheets s') = map sheet_id (sheets s)"
proof -
  from handleKeyDown_forms [of s key row col] show ?thesis
  proof (elim disjE exE)
    assume "handleKeyDown s key row col = Some s"
    with assms show ?thesis by simp
  next
    assume "handleKeyDown s key row col = Some (handleCellBlur s s)"
    with assms show ?thesis by (auto simp: ids_handleCellBlur)
  next
    fix r c
    assume "handleKeyDown s key row col = handleCellClick s (handleCellBlur s s) r c"
    with assms have "sheets s' = sheets (handleCellBlur s s)"
      by (simp add: sheets_handleCellClick)
    then show ?thesis by (simp add: ids_handleCellBlur)
  qed
qed

lemma ids_formulaBarChange: "map sheet_id (sheets (formulaBarChange s v)) = map sheet_id (sheets s)"
  by (cases "selectedCell s") (auto simp: formulaBarChange_def setCell_ids)

lemma ids_sheetTabClick: "map sheet_id (sheets (sheetTabClick s target)) = map sheet_id (sheets s)"
  by (cases "pendingEdit s") (auto simp: sheetTabClick_def setCell_ids)

lemma ids_renameSheet: "map sheet_id (sheets (renameSheet s sid n)) = map sheet_id (sheets s)"
  by (simp add: renameSheet_def comp_def cong: map_cong)

lemma ids_handleMouseMove: "map sheet_id (sheets (handleMouseMove s x y)) = map sheet_id (sheets s)"
proof (cases "isResizing s \<and> resizingType s \<noteq> None \<and> resizingIndex s \<noteq> None")
  case True
  then obtain type index where d: "isResizing s" "resizingType s = Some type" "resizingIndex s = Some index"
    by auto
  show ?thesis
    by (simp add: handleMouseMove_dragging [OF d] updateSheetDimensions_ids)
next
  case False
  then show ?thesis by (simp add: handleMouseMove_idle)
qed

lemma ids_addNewSheet:
  "map sheet_id (sheets (addNewSheet s now)) = map sheet_id (sheets s) @ [toString now]"
  by (simp add: addNewSheet_def Let_def)

lemma ids_deleteSheet:
  "deleteSheet s sid = Some s' \<Longrightarrow>
   map sheet_id (sheets s') = map sheet_id (sheets s)
   \<or> map sheet_id (sheets s') = filter (\<lambda>i. i \<noteq> sid) (map sheet_id (sheets s))"
  by (auto simp: deleteSheet_def Let_def filter_map comp_def split: if_splits list.splits)

lemma ids_handler_other:
  assumes "handler s e = Some s'" and "\<forall>now. e \<noteq> AddNewSheet now" and "\<forall>sid. e \<noteq> DeleteSheet sid"
  shows "map sheet_id (sheets s') = map sheet_id (sheets s)"
proof (cases e)
  case (CellClick row col)
  with assms(1) show ?thesis by (simp add: sheets_handleCellClick)
next
  case (CellChange v)
  with assms(1) show ?thesis by (auto simp: handleCellChange_def)
next
  case CellBlur
  with assms(1) show ?thesis by (auto simp: ids_handleCellBlur)
next
  case (KeyDown key row col)
  with assms(1) show ?thesis by (simp add: ids_handleKeyDown)
next
  case (FormulaBarChange v)
  with assms(1) show ?thesis by (auto simp: ids_formulaBarChange)
next
  case (AddNewSheet now)
  with assms(2) show ?thesis by simp
next
  case (DeleteSheet sid)
  with assms(3) show ?thesis by simp
next
  case (RenameSheet sid n)
  with assms(1) show ?thesis by (auto simp: ids_renameSheet)
next
  case (SheetTabClick target)
  with assms(1) show ?thesis by (auto simp: ids_sheetTabClick)
next
  case (ResizeStart type index x y)
  with assms(1) show ?thesis by (simp add: sheets_handleResizeStart)
next
  case (MouseMove x y)
  with assms(1) show ?thesis by (auto simp: ids_handleMouseMove)
next
  case MouseUp
  with assms(1) show ?thesis by (auto simp: handleMouseUp_def)
qed

lemma activeSheet_nonempty: "sheets s \<noteq> [] \<Longrightarrow> \<exists>sh. activeSheet s = Some sh"
  by (cases "sheets s") (auto simp: activeSheet_def split: option.splits)

lemma handleCellClick_total:
  "sheets snap \<noteq> [] \<Longrightarrow> \<exists>s'. handleCellClick snap pend r c = Some s'"
  using activeSheet_nonempty [of snap] by (auto simp: handleCellClick_def getCellValue_def)

lemma handleKeyDown_total:
  assumes "sheets s \<noteq> []"
  shows "\<exists>s'. handleKeyDown s key row col = Some s'"
proof -
  from handleKeyDown_forms [of s key row col] show ?thesis
  proof (elim disjE exE)
    fix r c
    assume "handleKeyDown s key row col = handleCellClick s (handleCellBlur s s) r c"
    with handleCellClick_total [OF assms, of "handleCellBlur s s" r c] show ?thesis by simp
  qed simp_all
qed

lemma handleResizeStart_total:
  assumes "sheets s \<noteq> []"
  shows "\<exists>s'. handleResizeStart s type index x y = Some s'"
  using activeSheet_nonempty [OF assms]
  by (auto simp: handleResizeStart_def getColumnWidth_def getRowHeight_def)

lemma deleteSheet_total:
  assumes "sheets s \<noteq> []" and "distinct (map sheet_id (sheets s))"
  shows "\<exists>s'. deleteSheet s sid = Some s' \<and> sheets s' \<noteq> []"
proof (cases "length (sheets s) = 1")
  case True
  with assms(1) show ?thesis by (simp add: deleteSheet_def)
next
  case False
  with assms(1) have "2 \<le> length (sheets s)"
    by (cases "sheets s") (auto simp: Suc_le_eq)
  from filter_ids_nonempty [OF assms(2) this, of sid]
  obtain sh rest where f: "filter (\<lambda>sh. sheet_id sh \<noteq> sid) (sheets s) = sh # rest"
    by (cases "filter (\<lambda>sh. sheet_id sh \<noteq> sid) (sheets s)") auto
  with False show ?thesis by (cases "activeSheetId s = sid") (simp_all add: deleteSheet_def)
qed

lemma handler_total:
  assumes "sheets s \<noteq> []" and "distinct (map sheet_id (sheets s))"
  shows "\<exists>s'. handler s e = Some s'"
proof (cases e)
  case (CellClick row col)
  with handleCellClick_total [OF assms(1), of s row col] show ?thesis by simp
next
  case (KeyDown key row col)
  with handleKeyDown_total [OF assms(1), of key row col] show ?thesis by simp
next
  case (DeleteSheet sid)
  with deleteSheet_total [OF assms, of sid] show ?thesis by auto
next
  case (ResizeStart type index x y)
  with handleResizeStart_total [OF assms(1), of type index x y] show ?thesis by simp
qed simp_all

lemma step_ids:
  assumes ne: "sheets s \<noteq> []" and di: "distinct (map sheet_id (sheets s))"
    and fresh: "toString ` set (clockReadings [e]) \<inter> set (map sheet_id (sheets s)) = {}"
  shows "\<exists>s'. step s e = Some s' \<and> sheets s' \<noteq> [] \<and> distinct (map sheet_id (sheets s'))
          \<and> set (map sheet_id (sheets s')) \<subseteq>
                set (map sheet_id (sheets s)) \<union> toString ` set (clockReadings [e])"
proof -
  from handler_total [OF ne di, of e] obtain h where h: "handler s e = Some h" by blast
  define s' where "s' = clearSelectionEffect s h"
  have st: "step s e = Some s'" by (simp add: step_def h s'_def)
  have sh: "sheets s' = sheets h" by (simp add: s'_def sheets_clearSelectionEffect)
  have "sheets h \<noteq> [] \<and> distinct (map sheet_id (sheets h))
          \<and> set (map sheet_id (sheets h)) \<subseteq>
                set (map sheet_id (sheets s)) \<union> toString ` set (clockReadings [e])"
  proof (cases "\<exists>now. e = AddNewSheet now")
    case True
    then obtain now where e: "e = AddNewSheet now" by blast
    with h have "h = addNewSheet s now" by simp
    then have ids: "map sheet_id (sheets h) = map sheet_id (sheets s) @ [toString now]"
      by (simp add: ids_addNewSheet)
    from fresh e have "toString now \<notin> set (map sheet_id (sheets s))" by simp
    with ids di have "distinct (map sheet_id (sheets h))" by simp
    moreover from ids have "sheets h \<noteq> []" by auto
    ultimately show ?thesis using ids e by auto
  next
    case notadd: False
    show ?thesis
    proof (cases "\<exists>sid. e = DeleteSheet sid")
      case True
      then obtain sid where e: "e = DeleteSheet sid" by blast
      with h have d: "deleteSheet s sid = Some h" by simp
      from deleteSheet_total [OF ne di, of sid] d have n: "sheets h \<noteq> []" by simp
      from ids_deleteSheet [OF d] di
      have "distinct (map sheet_id (sheets h)) \<and> set (map sheet_id (sheets h)) \<subseteq> set (map sheet_id (sheets s))"
        by (elim disjE) (simp, simp only: distinct_filter set_filter, blast)
      with n show ?thesis by auto
    next
      case False
      with notadd have "\<forall>now. e \<noteq> AddNewSheet now" "\<forall>sid. e \<noteq> DeleteSheet sid" by auto
      from ids_handler_other [OF h this] have ids: "map sheet_id (sheets h) = map sheet_id (sheets s)" .
      with ne have "sheets h \<noteq> []" by (metis map_is_Nil_conv)
      with ids di show ?thesis by auto
    qed
  qed
  with st sh show ?thesis by (intro exI [of _ s']) simp
qed

lemma clockReadings_single: "clockReadings [e] = (case e of AddNewSheet now \<Rightarrow> [now] | _ \<Rightarrow> [])"
  by (cases e) simp_all

lemma clockReadings_append_single: "clockReadings (e # es) = clockReadings [e] @ clockReadings es"
  by (cases e) simp_all

lemma clockReadings_Cons:
  "set (clockReadings (e # es)) = set (clockReadings [e]) \<union> set (clockReadings es)"
  "distinct (clockReadings (e # es)) \<longleftrightarrow>
     distinct (clockReadings es) \<and> set (clockReadings [e]) \<inter> set (clockReadings es) = {}"
proof -
  show "set (clockReadings (e # es)) = set (clockReadings [e]) \<union> set (clockReadings es)"
    by (subst clockReadings_append_single) simp
  have "distinct (clockReadings [e])"
    by (simp add: clockReadings_single split: Event.splits)
  then show "distinct (clockReadings (e # es)) \<longleftrightarrow>
     distinct (clockReadings es) \<and> set (clockReadings [e]) \<inter> set (clockReadings es) = {}"
    by (subst clockReadings_append_single) auto
qed

lemma run_ids:
  assumes "sheets s \<noteq> []" and "distinct (map sheet_id (sheets s))"
    and "set (map sheet_id (sheets s)) \<subseteq> toString ` U"
    and "distinct (clockReadings evs)" and "set (clockReadings evs) \<inter> U = {}"
  shows "\<exists>s'. run s evs = Some s' \<and> sheets s' \<noteq> [] \<and> distinct (map sheet_id (sheets s'))
          \<and> set (map sheet_id (sheets s')) \<subseteq> toString ` (U \<union> set (clockReadings evs))"
  using assms
proof (induction evs arbitrary: s U)
  case Nil
  then show ?case by simp
next
  case (Cons e es)
  let ?E = "set (clockReadings [e])"
  note cr = clockReadings_Cons [of e es]
  from Cons.prems(4) cr(2) have des: "distinct (clockReadings es)"
    and disj: "?E \<inter> set (clockReadings es) = {}"
    by blast+
  from Cons.prems(5) cr(1) have eU: "?E \<inter> U = {}" and esU: "set (clockReadings es) \<inter> U = {}"
    by blast+
  have fresh: "toString ` ?E \<inter> set (map sheet_id (sheets s)) = {}"
  proof (rule ccontr)
    assume "toString ` ?E \<inter> set (map sheet_id (sheets s)) \<noteq> {}"
    then obtain t where t: "t \<in> ?E" "toString t \<in> set (map sheet_id (sheets s))" by auto
    with Cons.prems(3) obtain u where "u \<in> U" "toString t = toString u" by auto
    with toString_inj have "t \<in> U" by auto
    with t(1) eU show False by auto
  qed
  from step_ids [OF Cons.prems(1,2) fresh] obtain s1 where
    s1: "step s e = Some s1" "sheets s1 \<noteq> []" "distinct (map sheet_id (sheets s1))"
        "set (map sheet_id (sheets s1)) \<subseteq> set (map sheet_id (sheets s)) \<union> toString ` ?E"
    by blast
  from s1(4) Cons.prems(3) have sub: "set (map sheet_id (sheets s1)) \<subseteq> toString ` (U \<union> ?E)"
    unfolding image_Un by blast
  from esU disj have d2: "set (clockReadings es) \<inter> (U \<union> ?E) = {}" by auto
  from Cons.IH [OF s1(2,3) sub des d2] obtain s' where
    s': "run s1 es = Some s'" "sheets s' \<noteq> []" "distinct (map sheet_id (sheets s'))"
        "set (map sheet_id (sheets s')) \<subseteq> toString ` (U \<union> ?E \<union> set (clockReadings es))"
    by blast
  have "U \<union> ?E \<union> set (clockReadings es) = U \<union> set (clockReadings (e # es))"
    using cr(1) by blast
  with s'(4) have sub': "set (map sheet_id (sheets s')) \<subseteq> toString ` (U \<union> set (clockReadings (e # es)))"
    by simp
  have "run s (e # es) = Some s'"
    by (simp add: s1(1) s'(1))
  with s'(2,3) sub' show ?case by (intro exI [of _ s'] conjI)
qed

lemma initial_ids: "map sheet_id (sheets initialState) = [''1'']"
  by (simp add: initialState_def)

text \<open>
  C3 (as amended). A sheet id is the decimal numeral of the clock reading taken when the sheet
  is added.  In every sequence of events from the initial state in which the readings of the
  additions are pairwise different and none of them is 1 (the numeral of the initial sheet's
  id), no handler throws, the sheet ids of the collection are pairwise different, and the id
  an addition at a further unused reading generates is different from every id present.
\<close>

theorem sheet_ids_distinct:
  assumes "distinct (clockReadings evs)" and "1 \<notin> set (clockReadings evs)"
  shows "\<exists>s. run initialState evs = Some s \<and> distinct (map sheet_id (sheets s))
          \<and> (now \<notin> set (clockReadings evs) \<and> now \<noteq> 1 \<longrightarrow>
                map sheet_id (sheets (addNewSheet s now)) = map sheet_id (sheets s) @ [toString now]
                \<and> toString now \<notin> set (map sheet_id (sheets s)))"
proof -
  have ne: "sheets initialState \<noteq> []" and di: "distinct (map sheet_id (sheets initialState))"
    by (simp_all add: initialState_def)
  have sub: "set (map sheet_id (sheets initialState)) \<subseteq> toString ` {1}"
    by (simp add: initial_ids toString_1)
  from assms(2) have disj: "set (clockReadings evs) \<inter> {1} = {}" by simp
  from run_ids [OF ne di sub assms(1) disj] obtain s where
    s: "run initialState evs = Some s" "distinct (map sheet_id (sheets s))"
       "set (map sheet_id (sheets s)) \<subseteq> toString ` ({1} \<union> set (clockReadings evs))"
    by blast
  have "toString now \<notin> set (map sheet_id (sheets s))"
    if "now \<notin> set (clockReadings evs)" and "now \<noteq> 1"
  proof
    assume "toString now \<in> set (map sheet_id (sheets s))"
    with s(3) obtain u where u: "u \<in> {1} \<union> set (clockReadings evs)" "toString now = toString u"
      by blast
    from toString_inj [OF u(2)] u(1) that show False by simp
  qed
  with s(1,2) show ?thesis
    by (intro exI [of _ s]) (simp add: ids_addNewSheet)
qed

text \<open>
  C3 as stated fails when two additions read the same clock value: both new sheets get the
  same id, which is also an id already present when the second one is generated.
\<close>

theorem sheet_ids_counterexample:
  "map_option (map sheet_id \<circ> sheets) (run initialState [AddNewSheet 5, AddNewSheet 5])
     = Some [''1'', ''5'', ''5'']
   \<and> \<not> distinct [''1'', ''5'', ''5'']
   \<and> map sheet_id (sheets (addNewSheet initialState 5)) = [''1'', ''5'']
   \<and> toString 5 \<in> set (map sheet_id (sheets (addNewSheet initialState 5)))"
  by (simp add: step_def clearSelectionEffect_def addNewSheet_def Let_def initialState_def toString_5)

theorem sheet_ids_distinct_witness:
  "clockReadings [AddNewSheet 5, RenameSheet ''5'' ''Budget'', AddNewSheet 7, DeleteSheet ''1''] = [5, 7]
   \<and> distinct [5, 7 :: int] \<and> (1::int) \<notin> set [5, 7] \<and> (9::int) \<notin> set [5, 7] \<and> (9::int) \<noteq> 1
   \<and> (\<exists>s. run initialState
               [AddNewSheet 5, RenameSheet ''5'' ''Budget'', AddNewSheet 7, DeleteSheet ''1''] = Some s
          \<and> map sheet_id (sheets s) = [''5'', ''7'']
          \<and> distinct (map sheet_id (sheets s))
          \<and> toString 9 \<notin> set (map sheet_id (sheets s)))"
proof -
  let ?evs = "[AddNewSheet 5, RenameSheet ''5'' ''Budget'', AddNewSheet 7, DeleteSheet ''1'']"
  have cr: "clockReadings ?evs = [5, 7]" by simp
  have h: "distinct (clockReadings ?evs)" "1 \<notin> set (clockReadings ?evs)"
    by (simp_all only: cr) simp_all
  have f: "9 \<notin> set (clockReadings ?evs) \<and> (9::int) \<noteq> 1"
    by (simp only: cr) simp
  have ids: "map_option (map sheet_id \<circ> sheets) (run initialState ?evs) = Some [''5'', ''7'']"
    by (simp add: step_def clearSelectionEffect_def addNewSheet_def renameSheet_def deleteSheet_def
        Let_def initialState_def toString_5 toString_7)
  from sheet_ids_distinct [OF h, of 9] f obtain s where
    s: "run initialState ?evs = Some s" "distinct (map sheet_id (sheets s))"
       "toString 9 \<notin> set (map sheet_id (sheets s))"
    by blast
  from ids s(1) have "map sheet_id (sheets s) = [''5'', ''7'']" by simp
  with s have "\<exists>s. run initialState ?evs = Some s
          \<and> map sheet_id (sheets s) = [''5'', ''7'']
          \<and> distinct (map sheet_id (sheets s))
          \<and> toString 9 \<notin> set (map sheet_id (sheets s))"
    by (intro exI [of _ s] conjI)
  with cr show ?thesis by simp
qed

section \<open>The active sheet id names a sheet\<close>

text \<open>
  The theorems about commits, navigation, the formula bar and resizing assume that the active
  sheet id is the id of a sheet of the collection.  The initial state has this property and
  every event keeps it, a click on a sheet tab being possible only for a tab that exists.
\<close>

lemma active_handleCellBlur: "activeSheetId (handleCellBlur snap pend) = activeSheetId pend"
  by (cases "pendingEdit snap") (simp_all add: handleCellBlur_def)

lemma active_handleCellClick:
  "handleCellClick snap pend r c = Some s' \<Longrightarrow> activeSheetId s' = activeSheetId pend"
  by (auto simp: handleCellClick_def split: option.splits)

lemma active_handleKeyDown:
  assumes "handleKeyDown s key row col = Some s'"
  shows "activeSheetId s' = activeSheetId s"
proof -
  from handleKeyDown_forms [of s key row col] show ?thesis
  proof (elim disjE exE)
    assume "handleKeyDown s key row col = Some s"
    with assms show ?thesis by simp
  next
    assume "handleKeyDown s key row col = Some (handleCellBlur s s)"
    with assms show ?thesis by (auto simp: active_handleCellBlur)
  next
    fix r c
    assume "handleKeyDown s key row col = handleCellClick s (handleCellBlur s s) r c"
    with assms have "activeSheetId s' = activeSheetId (handleCellBlur s s)"
      by (simp add: active_handleCellClick)
    then show ?thesis by (simp add: active_handleCellBlur)
  qed
qed

lemma active_formulaBarChange: "activeSheetId (formulaBarChange s v) = activeSheetId s"
  by (cases "selectedCell s") (simp_all add: formulaBarChange_def)

lemma active_handleMouseMove: "activeSheetId (handleMouseMove s x y) = activeSheetId s"
proof (cases "isResizing s \<and> resizingType s \<noteq> None \<and> resizingIndex s \<noteq> None")
  case True
  then obtain type index where d: "isResizing s" "resizingType s = Some type" "resizingIndex s = Some index"
    by auto
  show ?thesis by (simp add: handleMouseMove_dragging [OF d])
next
  case False
  then show ?thesis by (simp add: handleMouseMove_idle)
qed

lemma active_handleResizeStart:
  "handleResizeStart s type index x y = Some s' \<Longrightarrow> activeSheetId s' = activeSheetId s"
  by (auto simp: handleResizeStart_def split: option.splits)

lemma active_present_deleteSheet:
  assumes "deleteSheet s sid = Some s'" and "activeSheetId s \<in> set (map sheet_id (sheets s))"
  shows "activeSheetId s' \<in> set (map sheet_id (sheets s'))"
proof (cases "length (sheets s) = 1")
  case True
  with assms show ?thesis by (simp add: deleteSheet_def)
next
  case False
  show ?thesis
  proof (cases "activeSheetId s = sid")
    case True
    with False assms(1) show ?thesis
      by (auto simp: deleteSheet_def Let_def split: list.splits)
  next
    case ne: False
    with False assms(1) have "s' = s\<lparr>sheets := filter (\<lambda>sh. sheet_id sh \<noteq> sid) (sheets s)\<rparr>"
      by (simp add: deleteSheet_def)
    with ne assms(2) show ?thesis by auto
  qed
qed

lemma active_present_handler:
  assumes "handler s e = Some s'" and "activeSheetId s \<in> set (map sheet_id (sheets s))"
    and "dispatchable s e"
  shows "activeSheetId s' \<in> set (map sheet_id (sheets s'))"
proof (cases e)
  case (CellClick row col)
  with assms(1,2) show ?thesis
    by (simp add: sheets_handleCellClick active_handleCellClick)
next
  case (CellChange v)
  with assms(1,2) show ?thesis by (auto simp: handleCellChange_def)
next
  case CellBlur
  with assms(1,2) show ?thesis
    using ids_handleCellBlur [of s s] by (auto simp: active_handleCellBlur)
next
  case (KeyDown key row col)
  with assms(1,2) show ?thesis
    using ids_handleKeyDown [of s key row col s'] by (simp add: active_handleKeyDown)
next
  case (FormulaBarChange v)
  with assms(1,2) show ?thesis
    using ids_formulaBarChange [of s v] by (auto simp: active_formulaBarChange)
next
  case (AddNewSheet now)
  with assms(1) have "s' = addNewSheet s now" by simp
  then show ?thesis by (simp add: addNewSheet_def Let_def)
next
  case (DeleteSheet sid)
  with assms(1,2) show ?thesis
    using active_present_deleteSheet [of s sid s'] by simp
next
  case (RenameSheet sid n)
  with assms(1,2) show ?thesis
    using ids_renameSheet [of s sid n] by (auto simp: renameSheet_def)
next
  case (SheetTabClick target)
  with assms(1,3) show ?thesis
    using ids_sheetTabClick [of s target]
    by (cases "pendingEdit s") (auto simp: dispatchable_def sheetTabClick_def)
next
  case (ResizeStart type index x y)
  with assms(1,2) show ?thesis
    by (simp add: sheets_handleResizeStart active_handleResizeStart)
next
  case (MouseMove x y)
  with assms(1,2) show ?thesis
    using ids_handleMouseMove [of s x y] by (auto simp: active_handleMouseMove)
next
  case MouseUp
  with assms(1,2) show ?thesis by (auto simp: handleMouseUp_def)
qed

lemma active_present_step:
  assumes "step s e = Some s'" and "activeSheetId s \<in> set (map sheet_id (sheets s))"
    and "dispatchable s e"
  shows "activeSheetId s' \<in> set (map sheet_id (sheets s'))"
proof -
  from assms(1) obtain h where h: "handler s e = Some h" "s' = clearSelectionEffect s h"
    by (auto simp: step_def)
  from active_present_handler [OF h(1) assms(2,3)] show ?thesis
    by (auto simp: h(2) clearSelectionEffect_def)
qed

lemma active_present_run:
  "run s evs = Some s' \<Longrightarrow> dispatchableRun s evs \<Longrightarrow>
   activeSheetId s \<in> set (map sheet_id (sheets s)) \<Longrightarrow>
   activeSheetId s' \<in> set (map sheet_id (sheets s'))"
proof (induction evs arbitrary: s)
  case Nil
  then show ?case by simp
next
  case (Cons e es)
  from Cons.prems(1) obtain s1 where s1: "step s e = Some s1" "run s1 es = Some s'"
    by (auto split: option.splits)
  from Cons.prems(2) s1(1) have d: "dispatchable s e" "dispatchableRun s1 es" by simp_all
  from active_present_step [OF s1(1) Cons.prems(3) d(1)]
  show ?case by (rule Cons.IH [OF s1(2) d(2)])
qed

lemma active_present_reachable:
  "run initialState evs = Some s \<Longrightarrow> dispatchableRun initialState evs \<Longrightarrow>
   activeSheetId s \<in> set (map sheet_id (sheets s))"
  by (erule active_present_run) (simp_all add: initialState_def)

text \<open>
  When two additions read the same clock value, deleting the initial sheet and then the
  active one leaves no sheet, and \<open>newSheets[0].id\<close> throws.
\<close>

lemma deleteSheet_throws_on_equal_ids:
  "run initialState [AddNewSheet 5, AddNewSheet 5, DeleteSheet ''1'', DeleteSheet ''5''] = None"
  by (simp add: step_def clearSelectionEffect_def addNewSheet_def deleteSheet_def
      Let_def initialState_def toString_5)

end
